theory Spec2Isabelle
  imports Main "HOL-Library.Multiset"
begin

section \<open>Data model\<close>

text \<open>
  The records follow the TypeScript interfaces of \<^verbatim>\<open>subgraph-comparison.ts\<close> and
  \<^verbatim>\<open>contract-comparison.ts\<close>. Field names carry a short prefix because several
  interfaces share the property names \<^verbatim>\<open>id\<close>, \<^verbatim>\<open>name\<close>, \<^verbatim>\<open>artistName\<close> and \<^verbatim>\<open>editions\<close>.
  JavaScript strings are modelled as \<^typ>\<open>string\<close>, JSON integers as \<^typ>\<open>int\<close>.
\<close>

record FakeGotchiNFTToken =
  t_id :: string
  t_identifier :: string
  t_name :: string
  t_artistName :: string
  t_editions :: int

record Collection =
  c_id :: string
  c_name :: string
  c_artistName :: string
  c_editions :: int
  c_tokenIds :: "string list"

subsection \<open>The insertion-ordered \<^verbatim>\<open>Map\<close> of JavaScript\<close>

text \<open>
  A JavaScript \<^verbatim>\<open>Map\<close> keeps its entries in insertion order; \<^verbatim>\<open>set\<close> on a key that is
  already present replaces the value and keeps the position. It is an association
  list here, \<^verbatim>\<open>values()\<close> being the second components in list order.
\<close>

type_synonym ('k, 'v) Map = "('k \<times> 'v) list"

fun Map_set :: "('k, 'v) Map \<Rightarrow> 'k \<Rightarrow> 'v \<Rightarrow> ('k, 'v) Map" where
  "Map_set [] k v = [(k, v)]"
| "Map_set ((k', v') # m) k v =
     (if k' = k then (k, v) # m else (k', v') # Map_set m k v)"

definition Map_get :: "('k, 'v) Map \<Rightarrow> 'k \<Rightarrow> 'v option" where
  "Map_get m k = map_of m k"

definition Map_has :: "('k, 'v) Map \<Rightarrow> 'k \<Rightarrow> bool" where
  "Map_has m k = (Map_get m k \<noteq> None)"

definition Map_values :: "('k, 'v) Map \<Rightarrow> 'v list" where
  "Map_values m = map snd m"

definition Map_keys :: "('k, 'v) Map \<Rightarrow> 'k list" where
  "Map_keys m = map fst m"

text \<open>
  The invariant of a report map: its keys are pairwise different and every record is
  stored under its own id.
\<close>

definition keyed :: "('v \<Rightarrow> 'k) \<Rightarrow> ('k, 'v) Map \<Rightarrow> bool" where
  "keyed key m = (distinct (map fst m) \<and> (\<forall>p \<in> set m. key (snd p) = fst p))"


text \<open>\<^verbatim>\<open>new Map(pairs)\<close> inserts the pairs one after the other.\<close>

definition Map_of_pairs :: "('k \<times> 'v) list \<Rightarrow> ('k, 'v) Map" where
  "Map_of_pairs ps = foldl (\<lambda>m (k, v). Map_set m k v) [] ps"

subsection \<open>\<^verbatim>\<open>Number.prototype.toString\<close> on non-negative integers\<close>

definition digit_char :: "nat \<Rightarrow> char" where
  "digit_char d = ''0123456789'' ! d"

function toString :: "nat \<Rightarrow> string" where
  "toString n = (if n < 10 then [digit_char n] else toString (n div 10) @ [digit_char (n mod 10)])"
  by pat_completeness auto
termination
  by (relation "measure (\<lambda>n. n)") auto

declare toString.simps [simp del]

section \<open>Collection Grouper (\<^verbatim>\<open>groupIntoCollections\<close>)\<close>

text \<open>The template literal \<^verbatim>\<open>`${token.name}-${token.artistName}`\<close>.\<close>

definition collectionKey :: "FakeGotchiNFTToken \<Rightarrow> string" where
  "collectionKey token = t_name token @ ''-'' @ t_artistName token"

text \<open>
  One iteration of the \<^verbatim>\<open>for (const token of tokens)\<close> loop. The existing collection
  object is mutated in place in the source; in the association list that is a
  \<^const>\<open>Map_set\<close> of the changed object at its own key.
\<close>

definition groupStep ::
  "(string, Collection) Map \<Rightarrow> FakeGotchiNFTToken \<Rightarrow> (string, Collection) Map" where
  "groupStep collections token =
     (let key = collectionKey token in
      if Map_has collections key then
        (case Map_get collections key of
           Some collection \<Rightarrow>
             Map_set collections key
               (collection\<lparr>c_editions := c_editions collection + 1,
                           c_tokenIds := c_tokenIds collection @ [t_identifier token]\<rparr>)
         | None \<Rightarrow> collections)
      else
        Map_set collections key
          \<lparr>c_id = '''', c_name = t_name token, c_artistName = t_artistName token,
           c_editions = 1, c_tokenIds = [t_identifier token]\<rparr>)"

definition groupLoop :: "FakeGotchiNFTToken list \<Rightarrow> (string, Collection) Map" where
  "groupLoop tokens = foldl groupStep [] tokens"

text \<open>\<^verbatim>\<open>collectionsArray.map((collection, index) => ({...collection, id: (index + 1).toString()}))\<close>\<close>

definition assignIds :: "Collection list \<Rightarrow> Collection list" where
  "assignIds collectionsArray =
     map (\<lambda>(collection, index). collection\<lparr>c_id := toString (index + 1)\<rparr>)
       (zip collectionsArray [0..<length collectionsArray])"

definition groupIntoCollections :: "FakeGotchiNFTToken list \<Rightarrow> Collection list" where
  "groupIntoCollections tokens = assignIds (Map_values (groupLoop tokens))"


text \<open>
  Names for the two object values of the loop body: the object literal of the
  \<^verbatim>\<open>else\<close> branch and the result of \<^verbatim>\<open>editions++\<close> and \<^verbatim>\<open>tokenIds.push\<close>.
\<close>

definition newCollection :: "FakeGotchiNFTToken \<Rightarrow> Collection" where
  "newCollection token = \<lparr>c_id = '''', c_name = t_name token, c_artistName = t_artistName token,
           c_editions = 1, c_tokenIds = [t_identifier token]\<rparr>"

definition addEdition :: "Collection \<Rightarrow> FakeGotchiNFTToken \<Rightarrow> Collection" where
  "addEdition collection token = collection\<lparr>c_editions := c_editions collection + 1,
                           c_tokenIds := c_tokenIds collection @ [t_identifier token]\<rparr>"


text \<open>
  The order of first appearance: every element once, at the place of its first
  occurrence. It is what the key order of an insertion-ordered \<^verbatim>\<open>Map\<close> is compared with.
\<close>

primrec firstSeenOrder :: "'a list \<Rightarrow> 'a list" where
  "firstSeenOrder [] = []"
| "firstSeenOrder (x # xs) = x # removeAll x (firstSeenOrder xs)"

text \<open>The key under which a collection object was stored, rebuilt from its own fields.\<close>

definition keyOfCollection :: "Collection \<Rightarrow> string" where
  "keyOfCollection c = c_name c @ ''-'' @ c_artistName c"


section \<open>Difference records\<close>

text \<open>
  Every differ builds object literals with the properties \<^verbatim>\<open>id\<close>, \<^verbatim>\<open>differences\<close> and two
  snapshots, each of them an object or \<^verbatim>\<open>null\<close>. The first snapshot is the property
  \<^verbatim>\<open>subgraph1\<close> (in \<^verbatim>\<open>subgraph-comparison.ts\<close>) or \<^verbatim>\<open>subgraph\<close> (in
  \<^verbatim>\<open>contract-comparison.ts\<close>); the second one is \<^verbatim>\<open>prod\<close> or \<^verbatim>\<open>contract\<close>.
\<close>

record ('a, 'b) Difference =
  d_id :: string
  d_differences :: "string list"
  d_subgraph :: "'a option"
  d_other :: "'b option"

record TokenSnapshot =
  ts_name :: string
  ts_artistName :: string
  ts_editions :: int
  ts_identifier :: string

record CollectionSnapshot =
  cs_name :: string
  cs_artistName :: string
  cs_editions :: int

section \<open>Token Differ (\<^verbatim>\<open>findDifferences\<close>)\<close>

definition tokenSnapshot :: "FakeGotchiNFTToken \<Rightarrow> TokenSnapshot" where
  "tokenSnapshot item =
     \<lparr>ts_name = t_name item, ts_artistName = t_artistName item,
      ts_editions = t_editions item, ts_identifier = t_identifier item\<rparr>"

text \<open>The loop over \<^verbatim>\<open>["name", "artistName", "editions"]\<close> with strict inequality.\<close>

definition diffFields :: "FakeGotchiNFTToken \<Rightarrow> FakeGotchiNFTToken \<Rightarrow> string list" where
  "diffFields item1 item2 =
     (if t_name item1 \<noteq> t_name item2 then [''name''] else []) @
     (if t_artistName item1 \<noteq> t_artistName item2 then [''artistName''] else []) @
     (if t_editions item1 \<noteq> t_editions item2 then [''editions''] else [])"

type_synonym TokenDifference = "(TokenSnapshot, TokenSnapshot) Difference"

text \<open>
  The body of \<^verbatim>\<open>for (const item1 of data1)\<close>; \<^verbatim>\<open>!item2\<close> holds exactly when the lookup
  returns \<^verbatim>\<open>undefined\<close>, an object being truthy.
\<close>

definition leftStep ::
  "(string, FakeGotchiNFTToken) Map \<Rightarrow> (string, TokenDifference) Map \<Rightarrow>
   FakeGotchiNFTToken \<Rightarrow> (string, TokenDifference) Map" where
  "leftStep data2Map differencesMap item1 =
     (case Map_get data2Map (t_identifier item1) of
        None \<Rightarrow>
          Map_set differencesMap (t_identifier item1)
            \<lparr>d_id = t_identifier item1, d_differences = [''missing_in_prod''],
             d_subgraph = Some (tokenSnapshot item1), d_other = None\<rparr>
      | Some item2 \<Rightarrow>
          (if length (diffFields item1 item2) > 0 then
             Map_set differencesMap (t_identifier item1)
               \<lparr>d_id = t_identifier item1, d_differences = diffFields item1 item2,
                d_subgraph = Some (tokenSnapshot item1), d_other = Some (tokenSnapshot item2)\<rparr>
           else differencesMap))"

text \<open>The body of \<^verbatim>\<open>for (const item2 of data2)\<close>.\<close>

definition rightStep ::
  "string set \<Rightarrow> (string, TokenDifference) Map \<Rightarrow> FakeGotchiNFTToken \<Rightarrow>
   (string, TokenDifference) Map" where
  "rightStep data1Ids differencesMap item2 =
     (if t_identifier item2 \<notin> data1Ids then
        Map_set differencesMap (t_identifier item2)
          \<lparr>d_id = t_identifier item2, d_differences = [''missing_in_subgraph1''],
           d_subgraph = None, d_other = Some (tokenSnapshot item2)\<rparr>
      else differencesMap)"

definition findDifferences ::
  "FakeGotchiNFTToken list \<Rightarrow> FakeGotchiNFTToken list \<Rightarrow> TokenDifference list" where
  "findDifferences data1 data2 =
     (let data2Map = Map_of_pairs (map (\<lambda>item. (t_identifier item, item)) data2);
          differencesMap = foldl (leftStep data2Map) [] data1;
          data1Ids = set (map t_identifier data1);
          differencesMap = foldl (rightStep data1Ids) differencesMap data2
      in Map_values differencesMap)"

text \<open>The two records for a token that one side lacks.\<close>

definition missingInProd :: "FakeGotchiNFTToken \<Rightarrow> TokenDifference" where
  "missingInProd item1 =
     \<lparr>d_id = t_identifier item1, d_differences = [''missing_in_prod''],
      d_subgraph = Some (tokenSnapshot item1), d_other = None\<rparr>"

definition missingInSubgraph1 :: "FakeGotchiNFTToken \<Rightarrow> TokenDifference" where
  "missingInSubgraph1 item2 =
     \<lparr>d_id = t_identifier item2, d_differences = [''missing_in_subgraph1''],
      d_subgraph = None, d_other = Some (tokenSnapshot item2)\<rparr>"


section \<open>Positional Collection Differ (\<^verbatim>\<open>findCollectionDifferences\<close>)\<close>

text \<open>
  Reading \<^verbatim>\<open>collections1[i]\<close> beyond the end of the array gives \<^verbatim>\<open>undefined\<close>, and reading
  a property of \<^verbatim>\<open>undefined\<close> throws a \<^verbatim>\<open>TypeError\<close>: the branch \<^verbatim>\<open>!col1\<close> reads
  \<^verbatim>\<open>col2.name\<close> without a check of \<^verbatim>\<open>col2\<close>.
\<close>

datatype error = TypeError

definition at_index :: "'a list \<Rightarrow> nat \<Rightarrow> 'a option" where
  "at_index xs i = (if i < length xs then Some (xs ! i) else None)"

definition collectionSnapshot :: "Collection \<Rightarrow> CollectionSnapshot" where
  "collectionSnapshot col =
     \<lparr>cs_name = c_name col, cs_artistName = c_artistName col, cs_editions = c_editions col\<rparr>"

definition diffTypes :: "Collection \<Rightarrow> Collection \<Rightarrow> string list" where
  "diffTypes col1 col2 =
     (if c_name col1 \<noteq> c_name col2 then [''name''] else []) @
     (if c_artistName col1 \<noteq> c_artistName col2 then [''artistName''] else []) @
     (if c_editions col1 \<noteq> c_editions col2 then [''editions''] else [])"

type_synonym CollectionDifference = "(CollectionSnapshot, CollectionSnapshot) Difference"

function positionalLoop ::
  "Collection list \<Rightarrow> Collection list \<Rightarrow> nat \<Rightarrow> (string, CollectionDifference) Map \<Rightarrow>
   error + CollectionDifference list" where
  "positionalLoop collections1 collections2 i differencesMap =
     (if i < max (length collections1) (length collections2) then
        (case at_index collections1 i of
           None \<Rightarrow>
             (case at_index collections2 i of
                None \<Rightarrow> Inl TypeError
              | Some col2 \<Rightarrow>
                  positionalLoop collections1 collections2 (i + 1)
                    (Map_set differencesMap (toString i)
                       \<lparr>d_id = toString i, d_differences = [''missing_in_subgraph1''],
                        d_subgraph = None, d_other = Some (collectionSnapshot col2)\<rparr>))
         | Some col1 \<Rightarrow>
             (case at_index collections2 i of
                None \<Rightarrow>
                  positionalLoop collections1 collections2 (i + 1)
                    (Map_set differencesMap (toString i)
                       \<lparr>d_id = toString i, d_differences = [''missing_in_prod''],
                        d_subgraph = Some (collectionSnapshot col1), d_other = None\<rparr>)
              | Some col2 \<Rightarrow>
                  (if length (diffTypes col1 col2) > 0 then
                     positionalLoop collections1 collections2 (i + 1)
                       (Map_set differencesMap (toString i)
                          \<lparr>d_id = toString i, d_differences = diffTypes col1 col2,
                           d_subgraph = Some (collectionSnapshot col1),
                           d_other = Some (collectionSnapshot col2)\<rparr>)
                   else positionalLoop collections1 collections2 (i + 1) differencesMap)))
      else Inr (Map_values differencesMap))"
  by pat_completeness auto
termination
  by (relation "measure (\<lambda>(collections1, collections2, i, differencesMap).
        max (length collections1) (length collections2) - i)") auto

declare positionalLoop.simps [simp del]

definition findCollectionDifferences ::
  "Collection list \<Rightarrow> Collection list \<Rightarrow> error + CollectionDifference list" where
  "findCollectionDifferences collections1 collections2 =
     positionalLoop collections1 collections2 0 []"

text \<open>
  The positional comparison in the words of its description: what index \<open>i\<close>
  contributes to the report, namely one record or none.
\<close>

definition differingFields :: "Collection \<Rightarrow> Collection \<Rightarrow> string list" where
  "differingFields left right =
     map fst (filter snd
       [(''name'', c_name left \<noteq> c_name right),
        (''artistName'', c_artistName left \<noteq> c_artistName right),
        (''editions'', c_editions left \<noteq> c_editions right)])"

definition positionalRecord ::
  "Collection list \<Rightarrow> Collection list \<Rightarrow> nat \<Rightarrow> CollectionDifference list" where
  "positionalRecord left right i =
     (if length left \<le> i then
        [\<lparr>d_id = toString i, d_differences = [''missing_in_subgraph1''],
          d_subgraph = None, d_other = Some (collectionSnapshot (right ! i))\<rparr>]
      else if length right \<le> i then
        [\<lparr>d_id = toString i, d_differences = [''missing_in_prod''],
          d_subgraph = Some (collectionSnapshot (left ! i)), d_other = None\<rparr>]
      else if c_name (left ! i) = c_name (right ! i) \<and>
              c_artistName (left ! i) = c_artistName (right ! i) \<and>
              c_editions (left ! i) = c_editions (right ! i) then []
      else
        [\<lparr>d_id = toString i, d_differences = differingFields (left ! i) (right ! i),
          d_subgraph = Some (collectionSnapshot (left ! i)),
          d_other = Some (collectionSnapshot (right ! i))\<rparr>])"


section \<open>Paginated fetch (\<^verbatim>\<open>fetchAllData\<close>)\<close>

text \<open>
  The GraphQL endpoint is a parameter: \<open>subgraph first skip\<close> is the batch it answers
  to the query variables \<^verbatim>\<open>first\<close> and \<^verbatim>\<open>skip\<close>, or \<open>None\<close> when the request or the
  decoding of its answer throws. The variable \<^verbatim>\<open>skip\<close> grows with every batch that is
  not empty, so a function of \<^verbatim>\<open>skip\<close> describes any sequence of answers. The list
  \<open>requests\<close> records the line \<^verbatim>\<open>Fetching batch: skip=...\<close> that is logged before every
  request.
\<close>

definition batchSize :: nat where "batchSize = 1000"
definition maxResults :: nat where "maxResults = 50000"

function fetchLoop ::
  "(nat \<Rightarrow> nat \<Rightarrow> FakeGotchiNFTToken list option) \<Rightarrow> FakeGotchiNFTToken list \<Rightarrow> bool \<Rightarrow>
   nat \<Rightarrow> nat list \<Rightarrow> (FakeGotchiNFTToken list \<times> nat list) option" where
  "fetchLoop subgraph allTokens hasMore skip requests =
     (if hasMore \<and> length allTokens < maxResults then
        (case subgraph batchSize skip of
           None \<Rightarrow> None
         | Some batch \<Rightarrow>
             (if length batch = 0 then
                fetchLoop subgraph allTokens False skip (requests @ [skip])
              else
                fetchLoop subgraph (allTokens @ batch) hasMore (skip + length batch)
                  (requests @ [skip])))
      else Some (allTokens, requests))"
  by pat_completeness auto
termination
  by (relation "measure (\<lambda>(subgraph, allTokens, hasMore, skip, requests).
        (maxResults - length allTokens) + (if hasMore then 1 else 0))")
     (auto simp: neq_Nil_conv)

declare fetchLoop.simps [simp del]

definition fetchAllData ::
  "(nat \<Rightarrow> nat \<Rightarrow> FakeGotchiNFTToken list option) \<Rightarrow>
   (FakeGotchiNFTToken list \<times> nat list) option" where
  "fetchAllData subgraph = fetchLoop subgraph [] True 0 []"

text \<open>
  The answer to the request at \<open>skip\<close> ends the loop: it is empty, or it brings the
  accumulated total (which equals \<open>skip\<close> before the request) to the cap.
\<close>

definition stopsAt :: "(nat \<Rightarrow> nat \<Rightarrow> FakeGotchiNFTToken list option) \<Rightarrow> nat \<Rightarrow> bool" where
  "stopsAt sg skip =
     (case sg batchSize skip of
        None \<Rightarrow> False
      | Some batch \<Rightarrow> batch = [] \<or> maxResults \<le> skip + length batch)"

text \<open>
  What holds of the requests \<open>new\<close> issued from a state with \<open>allTokens\<close> accumulated and of
  the tokens \<open>toks\<close> returned at the end.
\<close>

definition runOK ::
  "(nat \<Rightarrow> nat \<Rightarrow> FakeGotchiNFTToken list option) \<Rightarrow> FakeGotchiNFTToken list \<Rightarrow>
   FakeGotchiNFTToken list \<Rightarrow> nat list \<Rightarrow> bool" where
  "runOK sg allTokens toks new =
     ((new = [] \<longleftrightarrow> maxResults \<le> length allTokens) \<and>
      (\<forall>i < length new. new ! i < maxResults \<and> (stopsAt sg (new ! i) \<longleftrightarrow> Suc i = length new)) \<and>
      (new = [] \<longrightarrow> toks = allTokens) \<and>
      (new \<noteq> [] \<longrightarrow> hd new = length allTokens \<and>
         (\<exists>b. sg batchSize (last new) = Some b \<and> length toks = last new + length b)) \<and>
      (\<forall>i. Suc i < length new \<longrightarrow>
         (\<exists>b. sg batchSize (new ! i) = Some b \<and> new ! Suc i = new ! i + length b)))"


section \<open>Contract comparison (\<^verbatim>\<open>contract-comparison.ts\<close>)\<close>

text \<open>
  The \<^verbatim>\<open>uint256\<close> values of \<^verbatim>\<open>ethers.BigNumber\<close> are natural numbers. An object used as a
  dictionary (\<^verbatim>\<open>Record<string, T>\<close>) is the list of its own entries in enumeration
  order, on top of the prototype every object literal has.
\<close>

record FakeGotchiCollection =
  fc_id :: string
  fc_name :: string
  fc_artistName :: string
  fc_editions :: int

record ContractMetadata =
  m_name :: string
  m_artistName :: string
  m_editions :: nat
  m_identifier :: nat

record ContractSnapshot =
  k_name :: string
  k_artistName :: string
  k_editions :: string
  k_identifier :: string

record ContractCollection =
  cc_name :: string
  cc_artistName :: string
  cc_editions :: int
  cc_id :: string

type_synonym 'v Record = "(string \<times> 'v) list"

text \<open>
  The property names of \<^verbatim>\<open>Object.prototype\<close>. Each of them is a function, except
  \<^verbatim>\<open>__proto__\<close>, an accessor whose getter returns \<^verbatim>\<open>Object.prototype\<close> itself and whose
  setter replaces the prototype of the object it is called on.
\<close>

definition objectPrototypeMembers :: "string list" where
  "objectPrototypeMembers =
     [''constructor'', ''__defineGetter__'', ''__defineSetter__'', ''hasOwnProperty'',
      ''__lookupGetter__'', ''__lookupSetter__'', ''isPrototypeOf'', ''propertyIsEnumerable'',
      ''toString'', ''valueOf'', ''__proto__'', ''toLocaleString'']"

text \<open>
  The read \<^verbatim>\<open>obj[k]\<close>: the own entry when there is one, else the member inherited from
  \<^verbatim>\<open>Object.prototype\<close> when \<open>k\<close> names one, else \<^verbatim>\<open>undefined\<close>. An inherited member is a
  function or an object, so it is truthy, and it has none of the properties of the
  stored values.
\<close>

datatype 'v Lookup = Own 'v | Inherited | Undefined

definition Record_get :: "'v Record \<Rightarrow> string \<Rightarrow> 'v Lookup" where
  "Record_get obj k =
     (case map_of obj k of
        Some v \<Rightarrow> Own v
      | None \<Rightarrow> if k \<in> set objectPrototypeMembers then Inherited else Undefined)"

text \<open>
  The assignment \<^verbatim>\<open>obj[k] = v\<close> of an object \<open>v\<close>: it replaces or appends an own entry,
  except for the key \<^verbatim>\<open>__proto__\<close> on an object without such an own entry, where the
  inherited setter runs and no own entry is made.
\<close>

definition Record_set :: "'v Record \<Rightarrow> string \<Rightarrow> 'v \<Rightarrow> 'v Record" where
  "Record_set obj k v =
     (if k = ''__proto__'' \<and> map_of obj k = None then obj else Map_set obj k v)"

text \<open>
  \<^verbatim>\<open>fetchContractMetadata\<close>: the contract read \<open>getMetadata\<close> is a parameter, \<open>Inl\<close> being
  the message of the error it throws. The assignment \<^verbatim>\<open>contractData[collectionId] = metadata\<close>
  is commented out in the source, so neither branch of the \<^verbatim>\<open>try\<close> changes
  \<open>contractData\<close>; each one writes a line to the console.
\<close>

datatype LogLine = Fetched string | FetchError string string

definition fetchOne ::
  "(string \<Rightarrow> string + ContractMetadata) \<Rightarrow> ContractMetadata Record \<times> LogLine list \<Rightarrow>
   FakeGotchiCollection \<Rightarrow> ContractMetadata Record \<times> LogLine list" where
  "fetchOne getMetadata st collection =
     (case st of (contractData, log) \<Rightarrow>
        (case getMetadata (fc_id collection) of
           Inr metadata \<Rightarrow> (contractData, log @ [Fetched (fc_id collection)])
         | Inl message \<Rightarrow> (contractData, log @ [FetchError (fc_id collection) message])))"

definition slice :: "'a list \<Rightarrow> nat \<Rightarrow> nat \<Rightarrow> 'a list" where
  "slice xs i j = take (j - i) (drop i xs)"

function fetchBatches ::
  "(string \<Rightarrow> string + ContractMetadata) \<Rightarrow> FakeGotchiCollection list \<Rightarrow> nat \<Rightarrow>
   ContractMetadata Record \<times> LogLine list \<Rightarrow> ContractMetadata Record \<times> LogLine list" where
  "fetchBatches getMetadata collectionsData i st =
     (if i < length collectionsData then
        fetchBatches getMetadata collectionsData (i + 10)
          (foldl (fetchOne getMetadata) st (slice collectionsData i (i + 10)))
      else st)"
  by pat_completeness auto
termination
  by (relation "measure (\<lambda>(getMetadata, collectionsData, i, st). length collectionsData - i)")
     auto

declare fetchBatches.simps [simp del]

definition fetchContractMetadata ::
  "(string \<Rightarrow> string + ContractMetadata) \<Rightarrow> FakeGotchiCollection list \<Rightarrow>
   ContractMetadata Record \<times> LogLine list" where
  "fetchContractMetadata getMetadata collectionsData =
     fetchBatches getMetadata collectionsData 0 ([], [])"

text \<open>
  \<^verbatim>\<open>compareData\<close>. The built-in \<^verbatim>\<open>parseInt\<close> is a parameter: it is applied to the decimal
  rendering of the \<^verbatim>\<open>BigNumber\<close>. When the lookup finds an inherited member, the branch
  \<^verbatim>\<open>!contractMetadata\<close> is not taken, the comparisons of \<^verbatim>\<open>name\<close> and \<^verbatim>\<open>artistName\<close> run,
  and \<^verbatim>\<open>contractMetadata.editions.toString()\<close> throws a \<^verbatim>\<open>TypeError\<close>, \<^verbatim>\<open>editions\<close> being
  \<^verbatim>\<open>undefined\<close>; the exception leaves the function.
\<close>

type_synonym ContractDifference = "(CollectionSnapshot, ContractSnapshot) Difference"

definition contractDiffTypes ::
  "(string \<Rightarrow> int) \<Rightarrow> FakeGotchiCollection \<Rightarrow> ContractMetadata \<Rightarrow> string list" where
  "contractDiffTypes parseInt collection contractMetadata =
     (if fc_name collection \<noteq> m_name contractMetadata then [''name''] else []) @
     (if fc_artistName collection \<noteq> m_artistName contractMetadata then [''artistName''] else []) @
     (if fc_editions collection \<noteq> parseInt (toString (m_editions contractMetadata))
      then [''editions''] else [])"

definition subgraphSnapshot :: "FakeGotchiCollection \<Rightarrow> CollectionSnapshot" where
  "subgraphSnapshot collection =
     \<lparr>cs_name = fc_name collection, cs_artistName = fc_artistName collection,
      cs_editions = fc_editions collection\<rparr>"

definition compareStep ::
  "(string \<Rightarrow> int) \<Rightarrow> ContractMetadata Record \<Rightarrow> ContractDifference list \<Rightarrow>
   FakeGotchiCollection \<Rightarrow> error + ContractDifference list" where
  "compareStep parseInt contractData differences collection =
     (case Record_get contractData (fc_id collection) of
        Undefined \<Rightarrow>
          Inr (differences @
            [\<lparr>d_id = fc_id collection, d_differences = [''missing_in_contract''],
              d_subgraph = Some (subgraphSnapshot collection), d_other = None\<rparr>])
      | Inherited \<Rightarrow> Inl TypeError
      | Own contractMetadata \<Rightarrow>
          (if length (contractDiffTypes parseInt collection contractMetadata) > 0 then
             Inr (differences @
               [\<lparr>d_id = fc_id collection,
                 d_differences = contractDiffTypes parseInt collection contractMetadata,
                 d_subgraph = Some (subgraphSnapshot collection),
                 d_other = Some \<lparr>k_name = m_name contractMetadata,
                                  k_artistName = m_artistName contractMetadata,
                                  k_editions = toString (m_editions contractMetadata),
                                  k_identifier = toString (m_identifier contractMetadata)\<rparr>\<rparr>])
           else Inr differences))"

fun compareLoop ::
  "(string \<Rightarrow> int) \<Rightarrow> ContractMetadata Record \<Rightarrow> ContractDifference list \<Rightarrow>
   FakeGotchiCollection list \<Rightarrow> error + ContractDifference list" where
  "compareLoop parseInt contractData differences [] = Inr differences"
| "compareLoop parseInt contractData differences (collection # rest) =
     (case compareStep parseInt contractData differences collection of
        Inl e \<Rightarrow> Inl e
      | Inr differences' \<Rightarrow> compareLoop parseInt contractData differences' rest)"

definition compareData ::
  "(string \<Rightarrow> int) \<Rightarrow> ContractMetadata Record \<Rightarrow> FakeGotchiCollection list \<Rightarrow>
   error + ContractDifference list" where
  "compareData parseInt contractData collectionsData =
     compareLoop parseInt contractData [] collectionsData"

text \<open>
  \<^verbatim>\<open>compareCollectionData\<close>; writing \<^verbatim>\<open>contract_collections.json\<close> is left out. The object
  \<^verbatim>\<open>contractCollections\<close> starts as \<^verbatim>\<open>{}\<close> and is filled by assignments; only its own
  entries are read afterwards (\<^verbatim>\<open>Object.values\<close>), and the lookups of the comparison are
  \<^verbatim>\<open>Map.get\<close>, which knows no prototype.
\<close>

type_synonym AggregatedDifference = "(FakeGotchiCollection, ContractCollection) Difference"

definition contractCollections ::
  "(string \<Rightarrow> int) \<Rightarrow> ContractMetadata Record \<Rightarrow> ContractCollection Record" where
  "contractCollections parseInt contractData =
     foldl (\<lambda>obj (cid, metadata).
        Record_set obj cid
          \<lparr>cc_name = m_name metadata, cc_artistName = m_artistName metadata,
           cc_editions = parseInt (toString (m_editions metadata)), cc_id = cid\<rparr>)
       [] contractData"

definition subgraphCollectionsMap ::
  "FakeGotchiCollection list \<Rightarrow> (string, FakeGotchiCollection) Map" where
  "subgraphCollectionsMap collectionsData =
     Map_of_pairs (map (\<lambda>collection. (fc_id collection, collection)) collectionsData)"

definition contractCollectionsMap ::
  "(string \<Rightarrow> int) \<Rightarrow> ContractMetadata Record \<Rightarrow> (string, ContractCollection) Map" where
  "contractCollectionsMap parseInt contractData =
     Map_of_pairs (map (\<lambda>collection. (cc_id collection, collection))
       (map snd (contractCollections parseInt contractData)))"

text \<open>\<^verbatim>\<open>new Set(array)\<close> keeps the first occurrence of every element, in order.\<close>

definition Set_of_list :: "'a list \<Rightarrow> 'a list" where
  "Set_of_list xs = foldl (\<lambda>s x. if x \<in> set s then s else s @ [x]) [] xs"

definition aggregatedDiffTypes :: "FakeGotchiCollection \<Rightarrow> ContractCollection \<Rightarrow> string list" where
  "aggregatedDiffTypes colFromSubgraph colFromContract =
     (if fc_name colFromSubgraph \<noteq> cc_name colFromContract then [''name''] else []) @
     (if fc_artistName colFromSubgraph \<noteq> cc_artistName colFromContract
      then [''artistName''] else []) @
     (if fc_editions colFromSubgraph \<noteq> cc_editions colFromContract then [''editions''] else [])"

definition compareOne ::
  "(string, FakeGotchiCollection) Map \<Rightarrow> (string, ContractCollection) Map \<Rightarrow>
   AggregatedDifference list \<Rightarrow> string \<Rightarrow> AggregatedDifference list" where
  "compareOne subgraphMap contractMap differences cid =
     (case Map_get subgraphMap cid of
        None \<Rightarrow>
          differences @
            [\<lparr>d_id = cid, d_differences = [''missing_in_subgraph''],
              d_subgraph = None, d_other = Map_get contractMap cid\<rparr>]
      | Some colFromSubgraph \<Rightarrow>
          (case Map_get contractMap cid of
             None \<Rightarrow>
               differences @
                 [\<lparr>d_id = cid, d_differences = [''missing_in_contract''],
                   d_subgraph = Some colFromSubgraph, d_other = None\<rparr>]
           | Some colFromContract \<Rightarrow>
               (if length (aggregatedDiffTypes colFromSubgraph colFromContract) > 0 then
                  differences @
                    [\<lparr>d_id = cid,
                      d_differences = aggregatedDiffTypes colFromSubgraph colFromContract,
                      d_subgraph = Some colFromSubgraph, d_other = Some colFromContract\<rparr>]
                else differences)))"

definition compareCollectionData ::
  "(string \<Rightarrow> int) \<Rightarrow> ContractMetadata Record \<Rightarrow> FakeGotchiCollection list \<Rightarrow>
   AggregatedDifference list" where
  "compareCollectionData parseInt contractData collectionsData =
     (let subgraphMap = subgraphCollectionsMap collectionsData;
          contractMap = contractCollectionsMap parseInt contractData;
          allIds = Set_of_list (Map_keys subgraphMap @ Map_keys contractMap)
      in foldl (compareOne subgraphMap contractMap) [] allIds)"

text \<open>
  What \<^verbatim>\<open>parseInt\<close> returns on a string of decimal digits whose value is below \<open>2 ^ 53\<close>;
  it instantiates the parameter in the examples.
\<close>

definition parseDecimal :: "string \<Rightarrow> int" where
  "parseDecimal s = foldl (\<lambda>acc ch. 10 * acc + (of_char ch - 48)) 0 s"


text \<open>
  The records one collection adds to the report of \<^verbatim>\<open>compareData\<close> when its step does not
  throw, and the record for a collection without contract data.
\<close>

definition stepRecords ::
  "(string \<Rightarrow> int) \<Rightarrow> ContractMetadata Record \<Rightarrow> FakeGotchiCollection \<Rightarrow>
   ContractDifference list" where
  "stepRecords parseInt contractData collection =
     (case compareStep parseInt contractData [] collection of Inl e \<Rightarrow> [] | Inr records \<Rightarrow> records)"

definition missingInContract :: "FakeGotchiCollection \<Rightarrow> ContractDifference" where
  "missingInContract collection =
     \<lparr>d_id = fc_id collection, d_differences = [''missing_in_contract''],
      d_subgraph = Some \<lparr>cs_name = fc_name collection,
                          cs_artistName = fc_artistName collection,
                          cs_editions = fc_editions collection\<rparr>,
      d_other = None\<rparr>"


text \<open>The collection a console line is about, and the line one collection produces.\<close>

fun logId :: "LogLine \<Rightarrow> string" where
  "logId (Fetched cid) = cid"
| "logId (FetchError cid message) = cid"

definition logLine :: "(string \<Rightarrow> string + ContractMetadata) \<Rightarrow> FakeGotchiCollection \<Rightarrow> LogLine" where
  "logLine getMetadata collection =
     (case getMetadata (fc_id collection) of
        Inr metadata \<Rightarrow> Fetched (fc_id collection)
      | Inl message \<Rightarrow> FetchError (fc_id collection) message)"


text \<open>
  The two sides of the keyed comparison as lookups: the last collection of the
  subgraph list with the id \<open>k\<close>, and the contract entry of \<open>k\<close> converted as
  \<^verbatim>\<open>compareCollectionData\<close> converts it; and the tags of the fields that differ.
\<close>

definition toContractCollection ::
  "(string \<Rightarrow> int) \<Rightarrow> string \<Rightarrow> ContractMetadata \<Rightarrow> ContractCollection" where
  "toContractCollection parseInt cid metadata =
     \<lparr>cc_name = m_name metadata, cc_artistName = m_artistName metadata,
      cc_editions = parseInt (toString (m_editions metadata)), cc_id = cid\<rparr>"

definition subgraphSide :: "FakeGotchiCollection list \<Rightarrow> string \<Rightarrow> FakeGotchiCollection option" where
  "subgraphSide collectionsData k =
     map_of (rev (map (\<lambda>collection. (fc_id collection, collection)) collectionsData)) k"

definition contractSide ::
  "(string \<Rightarrow> int) \<Rightarrow> ContractMetadata Record \<Rightarrow> string \<Rightarrow> ContractCollection option" where
  "contractSide parseInt contractData k =
     map_option (toContractCollection parseInt k) (map_of (rev contractData) k)"

definition differingKinds :: "FakeGotchiCollection \<Rightarrow> ContractCollection \<Rightarrow> string list" where
  "differingKinds s c =
     map fst (filter snd
       [(''name'', fc_name s \<noteq> cc_name c),
        (''artistName'', fc_artistName s \<noteq> cc_artistName c),
        (''editions'', fc_editions s \<noteq> cc_editions c)])"


section \<open>Example inputs\<close>

definition tok :: "string \<Rightarrow> string \<Rightarrow> string \<Rightarrow> int \<Rightarrow> FakeGotchiNFTToken" where
  "tok i n a e = \<lparr>t_id = i, t_identifier = i, t_name = n, t_artistName = a, t_editions = e\<rparr>"

definition hyphen_tokens :: "FakeGotchiNFTToken list" where
  "hyphen_tokens = [tok ''1'' ''a-b'' ''c'' 1, tok ''2'' ''a'' ''b-c'' 1]"

definition sample_tokens :: "FakeGotchiNFTToken list" where
  "sample_tokens = [tok ''1'' ''Cat'' ''Bob'' 2, tok ''2'' ''Dog'' ''Ann'' 1, tok ''3'' ''Cat'' ''Bob'' 2]"

definition duplicate_id_tokens :: "FakeGotchiNFTToken list" where
  "duplicate_id_tokens = [tok ''1'' ''Cat'' ''Bob'' 1, tok ''1'' ''Dog'' ''Ann'' 1]"


definition prod_tokens :: "FakeGotchiNFTToken list" where
  "prod_tokens = [tok ''1'' ''Cat'' ''Bob'' 2, tok ''2'' ''Dog'' ''Ann'' 1, tok ''3'' ''Cat'' ''Bob'' 2,
     tok ''4'' ''Cat'' ''Bob'' 2, tok ''5'' ''Emu'' ''Eve'' 1]"

definition editions_record :: CollectionDifference where
  "editions_record =
     \<lparr>d_id = ''0'', d_differences = [''editions''],
      d_subgraph = Some \<lparr>cs_name = ''Cat'', cs_artistName = ''Bob'', cs_editions = 2\<rparr>,
      d_other = Some \<lparr>cs_name = ''Cat'', cs_artistName = ''Bob'', cs_editions = 3\<rparr>\<rparr>"

definition missing_record :: CollectionDifference where
  "missing_record =
     \<lparr>d_id = ''2'', d_differences = [''missing_in_subgraph1''],
      d_subgraph = None,
      d_other = Some \<lparr>cs_name = ''Emu'', cs_artistName = ''Eve'', cs_editions = 1\<rparr>\<rparr>"


definition left_tokens :: "FakeGotchiNFTToken list" where
  "left_tokens = [tok ''1'' ''Cat'' ''Bob'' 2, tok ''7'' ''Owl'' ''Uma'' 1]"

definition right_tokens :: "FakeGotchiNFTToken list" where
  "right_tokens = [tok ''1'' ''Cat'' ''Bob'' 2, tok ''2'' ''Dog'' ''Ann'' 1]"


definition sample_token :: FakeGotchiNFTToken where
  "sample_token = tok ''1'' ''Cat'' ''Bob'' 2"

definition shortFirstSubgraph :: "nat \<Rightarrow> nat \<Rightarrow> FakeGotchiNFTToken list option" where
  "shortFirstSubgraph first skip =
     Some (replicate (if skip = 0 then first - 1 else first) sample_token)"

definition threeTokenSubgraph :: "nat \<Rightarrow> nat \<Rightarrow> FakeGotchiNFTToken list option" where
  "threeTokenSubgraph first skip =
     Some (take first (drop skip [tok ''1'' ''Cat'' ''Bob'' 2, tok ''2'' ''Dog'' ''Ann'' 1,
       tok ''3'' ''Cat'' ''Bob'' 2]))"

definition fetchedTokens ::
  "(FakeGotchiNFTToken list \<times> nat list) option \<Rightarrow> FakeGotchiNFTToken list" where
  "fetchedTokens result = (case result of None \<Rightarrow> [] | Some (allTokens, requests) \<Rightarrow> allTokens)"

definition requestsOf :: "(FakeGotchiNFTToken list \<times> nat list) option \<Rightarrow> nat list" where
  "requestsOf result = (case result of None \<Rightarrow> [] | Some (allTokens, requests) \<Rightarrow> requests)"


definition failingContract :: "string \<Rightarrow> string + ContractMetadata" where
  "failingContract cid =
     (if cid = ''2'' then Inl ''call revert exception''
      else Inr \<lparr>m_name = ''Cat'', m_artistName = ''Bob'', m_editions = 2, m_identifier = 1\<rparr>)"

definition subgraph_collections :: "FakeGotchiCollection list" where
  "subgraph_collections =
     [\<lparr>fc_id = ''1'', fc_name = ''Cat'', fc_artistName = ''Bob'', fc_editions = 2\<rparr>,
      \<lparr>fc_id = ''2'', fc_name = ''Dog'', fc_artistName = ''Ann'', fc_editions = 1\<rparr>]"


definition rejectingContract :: "string \<Rightarrow> string + ContractMetadata" where
  "rejectingContract cid =
     (if cid = ''constructor'' then Inl ''invalid BigNumber string''
      else Inr \<lparr>m_name = ''Dog'', m_artistName = ''Ann'', m_editions = 1, m_identifier = 2\<rparr>)"

definition constructor_collections :: "FakeGotchiCollection list" where
  "constructor_collections =
     [\<lparr>fc_id = ''constructor'', fc_name = ''Cat'', fc_artistName = ''Bob'', fc_editions = 2\<rparr>,
      \<lparr>fc_id = ''2'', fc_name = ''Dog'', fc_artistName = ''Ann'', fc_editions = 1\<rparr>]"

definition proto_contract :: "ContractMetadata Record" where
  "proto_contract =
     [(''__proto__'', \<lparr>m_name = ''A'', m_artistName = ''X'', m_editions = 6, m_identifier = 1\<rparr>)]"



definition keyed_subgraph :: "FakeGotchiCollection list" where
  "keyed_subgraph =
     [\<lparr>fc_id = ''1'', fc_name = ''A'', fc_artistName = ''X'', fc_editions = 5\<rparr>,
      \<lparr>fc_id = ''3'', fc_name = ''B'', fc_artistName = ''Y'', fc_editions = 1\<rparr>]"

definition keyed_contract :: "ContractMetadata Record" where
  "keyed_contract =
     [(''1'', \<lparr>m_name = ''A'', m_artistName = ''X'', m_editions = 6, m_identifier = 1\<rparr>),
      (''9'', \<lparr>m_name = ''C'', m_artistName = ''Z'', m_editions = 2, m_identifier = 9\<rparr>)]"


section \<open>Properties of the \<^verbatim>\<open>Map\<close> model\<close>

lemma Map_set_absent:
  "map_of m k = None \<Longrightarrow> Map_set m k v = m @ [(k, v)]"
  by (induction m) (auto split: if_splits)

lemma Map_set_present:
  "map_of m k = Some c \<Longrightarrow>
   \<exists>pre post. m = pre @ (k, c) # post \<and> k \<notin> fst ` set pre \<and>
               Map_set m k v = pre @ (k, v) # post"
proof (induction m)
  case Nil
  then show ?case by simp
next
  case (Cons p m)
  obtain k' v' where p: "p = (k', v')" by (cases p)
  show ?case
  proof (cases "k' = k")
    case True
    with Cons.prems p have "c = v'" by simp
    with True p have "p # m = [] @ (k, c) # m \<and> k \<notin> fst ` set [] \<and>
        Map_set (p # m) k v = [] @ (k, v) # m" by simp
    then show ?thesis by blast
  next
    case False
    with Cons.prems p have "map_of m k = Some c" by simp
    from Cons.IH [OF this] obtain pre post where
      h: "m = pre @ (k, c) # post" "k \<notin> fst ` set pre" "Map_set m k v = pre @ (k, v) # post"
      by blast
    with False p have "p # m = (p # pre) @ (k, c) # post \<and> k \<notin> fst ` set (p # pre) \<and>
        Map_set (p # m) k v = (p # pre) @ (k, v) # post" by auto
    then show ?thesis by blast
  qed
qed

lemma map_of_Map_set: "map_of (Map_set m k v) = (map_of m)(k \<mapsto> v)"
  by (induction m) (auto simp: fun_eq_iff)

lemma keys_Map_set:
  "map fst (Map_set m k v) = (if k \<in> fst ` set m then map fst m else map fst m @ [k])"
  by (induction m) (force split: if_splits)+

lemma distinct_Map_set: "distinct (map fst m) \<Longrightarrow> distinct (map fst (Map_set m k v))"
  by (simp add: keys_Map_set)

section \<open>Decimal rendering is injective\<close>

lemma lt10: "(a::nat) < 10 \<Longrightarrow> a \<in> {0,1,2,3,4,5,6,7,8,9}"
  by auto

lemma digit_char_inj: "a < 10 \<Longrightarrow> b < 10 \<Longrightarrow> digit_char a = digit_char b \<Longrightarrow> a = b"
  using lt10[of a] lt10[of b] unfolding digit_char_def
  by auto

lemma toString_nonempty: "toString n \<noteq> []"
  by (subst toString.simps) simp

lemma toString_inj: "toString n = toString m \<Longrightarrow> n = m"
proof (induction n arbitrary: m rule: toString.induct)
  case (1 n)
  show ?case
  proof (cases "n < 10")
    case nl: True
    show ?thesis
    proof (cases "m < 10")
      case True
      with nl "1.prems" show ?thesis
        by (simp add: toString.simps [of n] toString.simps [of m] digit_char_inj)
    next
      case False
      with nl "1.prems" have "toString (m div 10) = []"
        by (simp add: toString.simps [of n] toString.simps [of m])
      then show ?thesis by (simp add: toString_nonempty)
    qed
  next
    case ng: False
    show ?thesis
    proof (cases "m < 10")
      case True
      with ng "1.prems" have "toString (n div 10) = []"
        by (simp add: toString.simps [of n] toString.simps [of m])
      then show ?thesis by (simp add: toString_nonempty)
    next
      case False
      with ng "1.prems" have e: "toString (n div 10) = toString (m div 10)"
        and d: "digit_char (n mod 10) = digit_char (m mod 10)"
        by (simp_all add: toString.simps [of n] toString.simps [of m])
      from "1.IH" [OF ng e] have "n div 10 = m div 10" .
      moreover from d have "n mod 10 = m mod 10" by (simp add: digit_char_inj)
      ultimately show ?thesis by (metis div_mult_mod_eq)
    qed
  qed
qed

section \<open>Properties of the Collection Grouper\<close>

lemma groupLoop_snoc: "groupLoop (ts @ [t]) = groupStep (groupLoop ts) t"
  by (simp add: groupLoop_def)


lemma groupStep_cases:
  obtains (new) "map_of m (collectionKey t) = None"
      "groupStep m t = m @ [(collectionKey t, newCollection t)]"
  | (old) c pre post where "m = pre @ (collectionKey t, c) # post"
      "collectionKey t \<notin> fst ` set pre"
      "groupStep m t = pre @ (collectionKey t, addEdition c t) # post"
proof (cases "map_of m (collectionKey t)")
  case None
  then have "groupStep m t = m @ [(collectionKey t, newCollection t)]"
    by (simp add: groupStep_def Map_has_def Map_get_def Map_set_absent newCollection_def)
  with None show ?thesis by (rule new)
next
  case (Some c)
  from Map_set_present [OF Some, of "addEdition c t"] obtain pre post where
    h: "m = pre @ (collectionKey t, c) # post" "collectionKey t \<notin> fst ` set pre"
       "Map_set m (collectionKey t) (addEdition c t) = pre @ (collectionKey t, addEdition c t) # post"
    by blast
  from Some have "groupStep m t = Map_set m (collectionKey t) (addEdition c t)"
    by (simp add: groupStep_def Map_has_def Map_get_def addEdition_def)
  with h show ?thesis using old by metis
qed

lemma groupStep_editions_inv:
  assumes "\<forall>c \<in> snd ` set m. c_editions c = int (length (c_tokenIds c))"
  shows "\<forall>c \<in> snd ` set (groupStep m t). c_editions c = int (length (c_tokenIds c))"
proof (cases m t rule: groupStep_cases)
  case new
  with assms show ?thesis by (auto simp: newCollection_def)
next
  case (old c pre post)
  with assms show ?thesis by (auto simp: addEdition_def)
qed

lemma groupLoop_editions_inv:
  "\<forall>c \<in> snd ` set (groupLoop ts). c_editions c = int (length (c_tokenIds c))"
proof (induction ts rule: rev_induct)
  case Nil
  then show ?case by (simp add: groupLoop_def)
next
  case (snoc t ts)
  then show ?case unfolding groupLoop_snoc by (rule groupStep_editions_inv)
qed

lemma length_assignIds [simp]: "length (assignIds cs) = length cs"
  by (simp add: assignIds_def)

lemma nth_assignIds:
  "i < length cs \<Longrightarrow> assignIds cs ! i = (cs ! i)\<lparr>c_id := toString (i + 1)\<rparr>"
  by (simp add: assignIds_def)

lemma map_tokenIds_assignIds [simp]: "map c_tokenIds (assignIds cs) = map c_tokenIds cs"
  by (rule nth_equalityI) (simp_all add: nth_assignIds)

lemma map_editions_assignIds [simp]: "map c_editions (assignIds cs) = map c_editions cs"
  by (rule nth_equalityI) (simp_all add: nth_assignIds)

lemma map_name_assignIds [simp]: "map c_name (assignIds cs) = map c_name cs"
  by (rule nth_equalityI) (simp_all add: nth_assignIds)

lemma map_artistName_assignIds [simp]: "map c_artistName (assignIds cs) = map c_artistName cs"
  by (rule nth_equalityI) (simp_all add: nth_assignIds)

lemma groupStep_tokenIds:
  "mset (concat (map c_tokenIds (Map_values (groupStep m t)))) =
   mset (concat (map c_tokenIds (Map_values m))) + {#t_identifier t#}"
proof (cases m t rule: groupStep_cases)
  case new
  then show ?thesis by (simp add: newCollection_def Map_values_def)
next
  case (old c pre post)
  then show ?thesis by (simp add: addEdition_def Map_values_def)
qed

lemma groupLoop_tokenIds:
  "mset (concat (map c_tokenIds (Map_values (groupLoop ts)))) = mset (map t_identifier ts)"
proof (induction ts rule: rev_induct)
  case Nil
  then show ?case by (simp add: groupLoop_def Map_values_def)
next
  case (snoc t ts)
  then show ?case by (simp add: groupLoop_snoc groupStep_tokenIds)
qed

lemma groupStep_editions_sum:
  "sum_list (map c_editions (Map_values (groupStep m t))) = sum_list (map c_editions (Map_values m)) + 1"
proof (cases m t rule: groupStep_cases)
  case new
  then show ?thesis by (simp add: newCollection_def Map_values_def)
next
  case (old c pre post)
  then show ?thesis by (simp add: addEdition_def Map_values_def)
qed

lemma groupLoop_editions_sum:
  "sum_list (map c_editions (Map_values (groupLoop ts))) = int (length ts)"
proof (induction ts rule: rev_induct)
  case Nil
  then show ?case by (simp add: groupLoop_def Map_values_def)
next
  case (snoc t ts)
  then show ?case by (simp add: groupLoop_snoc groupStep_editions_sum)
qed

lemma distinct_concat_nth:
  "distinct (concat xss) \<Longrightarrow> i < length xss \<Longrightarrow> j < length xss \<Longrightarrow>
   x \<in> set (xss ! i) \<Longrightarrow> x \<in> set (xss ! j) \<Longrightarrow> i = j"
proof (induction xss arbitrary: i j)
  case Nil
  then show ?case by simp
next
  case (Cons ys xss)
  show ?case
  proof (cases i)
    case i0: 0
    show ?thesis
    proof (cases j)
      case 0
      with i0 show ?thesis by simp
    next
      case (Suc j')
      with Cons.prems i0 have "x \<in> set ys" "x \<in> set (concat xss)" by auto
      with Cons.prems(1) show ?thesis by auto
    qed
  next
    case (Suc i')
    show ?thesis
    proof (cases j)
      case 0
      with Cons.prems Suc have "x \<in> set ys" "x \<in> set (concat xss)" by auto
      with Cons.prems(1) show ?thesis by auto
    next
      case j: (Suc j')
      with Cons.prems Suc have "i' = j'" by (intro Cons.IH) auto
      with Suc j show ?thesis by simp
    qed
  qed
qed

lemma set_firstSeenOrder [simp]: "set (firstSeenOrder xs) = set xs"
  by (induction xs) auto

lemma firstSeenOrder_snoc:
  "firstSeenOrder (xs @ [x]) = (if x \<in> set xs then firstSeenOrder xs else firstSeenOrder xs @ [x])"
  by (induction xs) auto

lemma keys_groupStep:
  "map fst (groupStep m t) =
     (if collectionKey t \<in> set (map fst m) then map fst m else map fst m @ [collectionKey t])"
proof (cases m t rule: groupStep_cases)
  case new
  then show ?thesis by (simp add: map_of_eq_None_iff)
next
  case (old c pre post)
  then show ?thesis by simp
qed

lemma keys_groupLoop: "map fst (groupLoop ts) = firstSeenOrder (map collectionKey ts)"
proof (induction ts rule: rev_induct)
  case Nil
  then show ?case by (simp add: groupLoop_def)
next
  case (snoc t ts)
  then show ?case by (simp add: groupLoop_snoc keys_groupStep firstSeenOrder_snoc)
qed

lemma groupStep_key_inv:
  assumes "\<forall>p \<in> set m. fst p = keyOfCollection (snd p)"
  shows "\<forall>p \<in> set (groupStep m t). fst p = keyOfCollection (snd p)"
proof (cases m t rule: groupStep_cases)
  case new
  with assms show ?thesis by (auto simp: newCollection_def keyOfCollection_def collectionKey_def)
next
  case (old c pre post)
  with assms show ?thesis by (auto simp: addEdition_def keyOfCollection_def)
qed

lemma groupLoop_key_inv: "\<forall>p \<in> set (groupLoop ts). fst p = keyOfCollection (snd p)"
proof (induction ts rule: rev_induct)
  case Nil
  then show ?case by (simp add: groupLoop_def)
next
  case (snoc t ts)
  then show ?case unfolding groupLoop_snoc by (rule groupStep_key_inv)
qed

lemma map_key_assignIds [simp]: "map keyOfCollection (assignIds cs) = map keyOfCollection cs"
  by (rule nth_equalityI) (simp_all add: nth_assignIds keyOfCollection_def)

lemma map_id_assignIds: "map c_id (assignIds cs) = map (\<lambda>i. toString (i + 1)) [0..<length cs]"
  by (rule nth_equalityI) (simp_all add: nth_assignIds)

lemma keys_groupIntoCollections:
  "map keyOfCollection (groupIntoCollections tokens) = firstSeenOrder (map collectionKey tokens)"
proof -
  have "map keyOfCollection (Map_values (groupLoop tokens)) = map fst (groupLoop tokens)"
    using groupLoop_key_inv [of tokens] by (simp add: Map_values_def)
  then show ?thesis by (simp add: groupIntoCollections_def keys_groupLoop)
qed

text \<open>
  The ids follow the positions of the output, and the output follows the first
  appearance of the keys the source builds.
\<close>

lemma groupIntoCollections_ids_by_key_order: "map c_id (groupIntoCollections tokens) =
     map (\<lambda>i. toString (i + 1)) [0..<length (groupIntoCollections tokens)] \<and>
   map keyOfCollection (groupIntoCollections tokens) = firstSeenOrder (map collectionKey tokens)"
  by (simp add: keys_groupIntoCollections) (simp add: groupIntoCollections_def map_id_assignIds)

lemmas group_eval = groupIntoCollections_def groupLoop_def groupStep_def collectionKey_def
  Map_has_def Map_get_def Map_values_def assignIds_def tok_def toString.simps digit_char_def
  upt_rec

text \<open>
  Claim C1: two tokens whose pairs (name, artistName) differ, namely (a-b, c) and
  (a, b-c), have the same key \<^verbatim>\<open>a-b-c\<close> and land in one collection, which keeps the name
  and the artist of the first one.
\<close>

theorem groupIntoCollections_hyphen_collision: "groupIntoCollections hyphen_tokens =
     [\<lparr>c_id = ''1'', c_name = ''a-b'', c_artistName = ''c'', c_editions = 2,
       c_tokenIds = [''1'', ''2'']\<rparr>]"
  by (simp add: hyphen_tokens_def group_eval)


lemma sample_eval: "groupIntoCollections sample_tokens =
     [\<lparr>c_id = ''1'', c_name = ''Cat'', c_artistName = ''Bob'', c_editions = 2,
       c_tokenIds = [''1'', ''3'']\<rparr>,
      \<lparr>c_id = ''2'', c_name = ''Dog'', c_artistName = ''Ann'', c_editions = 1,
       c_tokenIds = [''2'']\<rparr>]"
  by (simp add: sample_tokens_def group_eval)

lemma dup_eval: "groupIntoCollections duplicate_id_tokens =
     [\<lparr>c_id = ''1'', c_name = ''Cat'', c_artistName = ''Bob'', c_editions = 1,
       c_tokenIds = [''1'']\<rparr>,
      \<lparr>c_id = ''2'', c_name = ''Dog'', c_artistName = ''Ann'', c_editions = 1,
       c_tokenIds = [''1'']\<rparr>]"
  by (simp add: duplicate_id_tokens_def group_eval)

lemma set_assignIds_editions:
  "c \<in> set (assignIds cs) \<Longrightarrow> \<exists>c' \<in> set cs. c_editions c = c_editions c' \<and> c_tokenIds c = c_tokenIds c'"
proof -
  assume "c \<in> set (assignIds cs)"
  then obtain i where i: "i < length cs" "c = assignIds cs ! i"
    by (auto simp: in_set_conv_nth)
  then have "cs ! i \<in> set cs" "c_editions c = c_editions (cs ! i)"
    "c_tokenIds c = c_tokenIds (cs ! i)"
    by (simp_all add: nth_assignIds)
  then show ?thesis by blast
qed

text \<open>
  Claim C9: \<^verbatim>\<open>editions\<close> equals the length of \<^verbatim>\<open>tokenIds\<close> in every collection of the output,
  and in every collection of the map after any number \<open>n\<close> of tokens has been consumed.
\<close>

theorem editions_eq_length_tokenIds: "(\<forall>c \<in> set (groupIntoCollections tokens). c_editions c = int (length (c_tokenIds c))) \<and>
  (\<forall>n \<le> length tokens. \<forall>c \<in> set (Map_values (groupLoop (take n tokens))).
      c_editions c = int (length (c_tokenIds c)))"
proof (intro conjI ballI allI impI)
  fix c assume "c \<in> set (groupIntoCollections tokens)"
  then obtain c' where "c' \<in> set (Map_values (groupLoop tokens))"
    "c_editions c = c_editions c'" "c_tokenIds c = c_tokenIds c'"
    unfolding groupIntoCollections_def by (blast dest: set_assignIds_editions)
  with groupLoop_editions_inv [of tokens] show "c_editions c = int (length (c_tokenIds c))"
    by (auto simp: Map_values_def)
next
  fix n c assume "c \<in> set (Map_values (groupLoop (take n tokens)))"
  with groupLoop_editions_inv [of "take n tokens"] show "c_editions c = int (length (c_tokenIds c))"
    by (auto simp: Map_values_def)
qed

text \<open>Claim C9, at three tokens of two collections, after two tokens and at the end.\<close>

theorem editions_eq_length_tokenIds_witness:
  "groupIntoCollections sample_tokens ! 0 \<in> set (groupIntoCollections sample_tokens) \<and>
   c_editions (groupIntoCollections sample_tokens ! 0) =
     int (length (c_tokenIds (groupIntoCollections sample_tokens ! 0))) \<and>
   (2::nat) \<le> length sample_tokens \<and>
   snd (groupLoop (take 2 sample_tokens) ! 1) \<in> set (Map_values (groupLoop (take 2 sample_tokens))) \<and>
   c_editions (snd (groupLoop (take 2 sample_tokens) ! 1)) =
     int (length (c_tokenIds (snd (groupLoop (take 2 sample_tokens) ! 1))))"
proof -
  have a: "groupIntoCollections sample_tokens ! 0 \<in> set (groupIntoCollections sample_tokens)"
    by (simp add: sample_eval)
  have b: "(2::nat) \<le> length sample_tokens" by (simp add: sample_tokens_def)
  have c: "snd (groupLoop (take 2 sample_tokens) ! 1) \<in>
      set (Map_values (groupLoop (take 2 sample_tokens)))"
    by (simp add: sample_tokens_def group_eval)
  from a b c editions_eq_length_tokenIds [of sample_tokens] show ?thesis by blast
qed

text \<open>
  Claim C2, amended: the token ids of all output collections together are the
  identifiers of the input tokens, each as often as it occurs in the input; the
  \<^verbatim>\<open>editions\<close> of the output collections add up to the length of the input; the empty
  input gives the empty output; and when the identifiers of the input are pairwise
  different, the identifier of every input token is in the \<^verbatim>\<open>tokenIds\<close> of exactly one
  output collection.
\<close>

theorem groupIntoCollections_partition: "mset (concat (map c_tokenIds (groupIntoCollections tokens))) = mset (map t_identifier tokens) \<and>
  sum_list (map c_editions (groupIntoCollections tokens)) = int (length tokens) \<and>
  groupIntoCollections [] = [] \<and>
  (distinct (map t_identifier tokens) \<longrightarrow>
     (\<forall>t \<in> set tokens. \<exists>!i. i < length (groupIntoCollections tokens) \<and>
         t_identifier t \<in> set (c_tokenIds (groupIntoCollections tokens ! i))))"
proof (intro conjI impI ballI)
  show m: "mset (concat (map c_tokenIds (groupIntoCollections tokens))) = mset (map t_identifier tokens)"
    by (simp add: groupIntoCollections_def groupLoop_tokenIds)
  show "sum_list (map c_editions (groupIntoCollections tokens)) = int (length tokens)"
    by (simp add: groupIntoCollections_def groupLoop_editions_sum)
  show "groupIntoCollections [] = []"
    by (simp add: groupIntoCollections_def groupLoop_def Map_values_def assignIds_def)
  fix t assume d: "distinct (map t_identifier tokens)" and t: "t \<in> set tokens"
  let ?out = "groupIntoCollections tokens"
  let ?xss = "map c_tokenIds ?out"
  from m d have dc: "distinct (concat ?xss)"
    by (metis mset_eq_imp_distinct_iff)
  from m have "set (concat ?xss) = set (map t_identifier tokens)"
    by (rule mset_eq_setD)
  with t have "t_identifier t \<in> set (concat ?xss)" by simp
  then obtain c where "c \<in> set ?out" "t_identifier t \<in> set (c_tokenIds c)"
    by auto
  then obtain i where i: "i < length ?out" "t_identifier t \<in> set (c_tokenIds (?out ! i))"
    by (metis in_set_conv_nth)
  show "\<exists>!i. i < length ?out \<and> t_identifier t \<in> set (c_tokenIds (?out ! i))"
  proof (rule ex1I [of _ i])
    from i show "i < length ?out \<and> t_identifier t \<in> set (c_tokenIds (?out ! i))" by simp
  next
    fix j assume "j < length ?out \<and> t_identifier t \<in> set (c_tokenIds (?out ! j))"
    with i distinct_concat_nth [OF dc, of j i "t_identifier t"] show "j = i" by simp
  qed
qed

text \<open>
  Claim C2 as stated, for every token list: two tokens with the identifier 1 and
  different names give two collections, and the identifier of the first token is in
  the \<^verbatim>\<open>tokenIds\<close> of both.
\<close>

theorem groupIntoCollections_duplicate_identifier: "t_identifier (duplicate_id_tokens ! 0) \<in> set (c_tokenIds (groupIntoCollections duplicate_id_tokens ! 0)) \<and>
  t_identifier (duplicate_id_tokens ! 0) \<in> set (c_tokenIds (groupIntoCollections duplicate_id_tokens ! 1))
  \<and> length (groupIntoCollections duplicate_id_tokens) = 2 \<and> duplicate_id_tokens ! 0 \<in> set duplicate_id_tokens"
  by (simp add: dup_eval) (simp add: duplicate_id_tokens_def tok_def)

text \<open>Claim C2, amended, at three tokens with the identifiers 1, 2 and 3.\<close>

theorem groupIntoCollections_partition_witness:
  "distinct (map t_identifier sample_tokens) \<and>
   sample_tokens ! 2 \<in> set sample_tokens \<and>
   (\<exists>!i. i < length (groupIntoCollections sample_tokens) \<and>
      t_identifier (sample_tokens ! 2) \<in> set (c_tokenIds (groupIntoCollections sample_tokens ! i))) \<and>
   mset (concat (map c_tokenIds (groupIntoCollections sample_tokens))) =
     mset (map t_identifier sample_tokens) \<and>
   sum_list (map c_editions (groupIntoCollections sample_tokens)) = int (length sample_tokens)"
proof -
  have d: "distinct (map t_identifier sample_tokens)" "sample_tokens ! 2 \<in> set sample_tokens"
    by (simp_all add: sample_tokens_def tok_def)
  with groupIntoCollections_partition [of sample_tokens] show ?thesis by blast
qed


section \<open>Properties of the positional Collection Differ\<close>

lemma diffTypes_differingFields: "diffTypes a b = differingFields a b"
  by (simp add: diffTypes_def differingFields_def)

lemma differingFields_Nil:
  "(differingFields a b = []) =
   (c_name a = c_name b \<and> c_artistName a = c_artistName b \<and> c_editions a = c_editions b)"
  by (simp add: differingFields_def)

lemma positionalLoop_step:
  assumes "i < max (length l) (length r)" and "map_of m (toString i) = None"
  shows "positionalLoop l r i m =
         positionalLoop l r (Suc i) (m @ map (Pair (toString i)) (positionalRecord l r i))"
  using assms
  by (subst positionalLoop.simps)
     (auto simp: at_index_def positionalRecord_def Map_set_absent differingFields_Nil
        diffTypes_differingFields)

lemma positionalLoop_stop:
  "\<not> i < max (length l) (length r) \<Longrightarrow> positionalLoop l r i m = Inr (Map_values m)"
  by (subst positionalLoop.simps) simp

lemma set_positionalRecord_id: "x \<in> set (positionalRecord l r i) \<Longrightarrow> d_id x = toString i"
  by (auto simp: positionalRecord_def split: if_splits)

lemma positionalLoop_from:
  assumes "fst ` set m \<subseteq> toString ` {..<i}"
  shows "positionalLoop l r i m =
         Inr (Map_values m @ concat (map (positionalRecord l r) [i..<max (length l) (length r)]))"
  using assms
proof (induction "max (length l) (length r) - i" arbitrary: i m)
  case 0
  then have stop: "\<not> i < max (length l) (length r)" by linarith
  then have "max (length l) (length r) \<le> i" by linarith
  then have e: "[i..<max (length l) (length r)] = []" using upt_eq_Nil_conv by blast
  have s: "positionalLoop l r i m = Inr (Map_values m)" by (rule positionalLoop_stop [OF stop])
  show ?case unfolding s e by simp
next
  case (Suc d)
  then have lt: "i < max (length l) (length r)" by linarith
  have fresh: "map_of m (toString i) = None"
  proof (rule ccontr)
    assume "map_of m (toString i) \<noteq> None"
    then have "toString i \<in> fst ` set m" by (simp add: map_of_eq_None_iff)
    with Suc.prems obtain j where "j < i" "toString i = toString j" by auto
    then show False by (auto dest: toString_inj)
  qed
  let ?m = "m @ map (Pair (toString i)) (positionalRecord l r i)"
  have keys: "fst ` set ?m \<subseteq> toString ` {..<Suc i}"
    using Suc.prems by (auto simp: lessThan_Suc)
  have d: "d = max (length l) (length r) - Suc i" using Suc.hyps(2) by linarith
  have "positionalLoop l r i m = positionalLoop l r (Suc i) ?m"
    by (rule positionalLoop_step [OF lt fresh])
  also have "\<dots> = Inr (Map_values ?m @
      concat (map (positionalRecord l r) [Suc i..<max (length l) (length r)]))"
    by (rule Suc.hyps(1) [OF d keys])
  also have "\<dots> = Inr (Map_values m @
      concat (map (positionalRecord l r) [i..<max (length l) (length r)]))"
    using lt by (simp add: Map_values_def upt_conv_Cons comp_def)
  finally show ?case .
qed

text \<open>
  Claim C7: the positional differ returns, without an error, the records of the
  indices \<open>0\<close> to \<open>max (length left) (length right) - 1\<close> in this order, where index
  \<open>i\<close> gives \<^verbatim>\<open>missing_in_subgraph1\<close> with the snapshot of \<open>right ! i\<close> when \<open>left\<close> has no
  such index, \<^verbatim>\<open>missing_in_prod\<close> with the snapshot of \<open>left ! i\<close> when \<open>right\<close> has none,
  and otherwise a record with both snapshots exactly when name, artistName or
  editions differ.
\<close>

theorem findCollectionDifferences_positional: "findCollectionDifferences left right =
   Inr (concat (map (positionalRecord left right) [0..<max (length left) (length right)]))"
  unfolding findCollectionDifferences_def
  by (subst positionalLoop_from) (simp_all add: Map_values_def)

lemma prod_eval: "groupIntoCollections prod_tokens =
     [\<lparr>c_id = ''1'', c_name = ''Cat'', c_artistName = ''Bob'', c_editions = 3,
       c_tokenIds = [''1'', ''3'', ''4'']\<rparr>,
      \<lparr>c_id = ''2'', c_name = ''Dog'', c_artistName = ''Ann'', c_editions = 1,
       c_tokenIds = [''2'']\<rparr>,
      \<lparr>c_id = ''3'', c_name = ''Emu'', c_artistName = ''Eve'', c_editions = 1,
       c_tokenIds = [''5'']\<rparr>]"
  by (simp add: prod_tokens_def group_eval)

lemma positional_example_eval:
  "findCollectionDifferences (groupIntoCollections sample_tokens) (groupIntoCollections prod_tokens) =
     Inr [editions_record, missing_record]"
  by (simp add: sample_eval prod_eval findCollectionDifferences_def positionalLoop.simps
      at_index_def diffTypes_def collectionSnapshot_def toString.simps digit_char_def
      Map_values_def editions_record_def missing_record_def)

text \<open>
  Claim C7, at two grouped lists of lengths 2 and 3: the editions differ at index 0,
  index 1 agrees, and index 2 exists on the right only.
\<close>

theorem findCollectionDifferences_positional_witness:
  "findCollectionDifferences (groupIntoCollections sample_tokens) (groupIntoCollections prod_tokens) =
     Inr [editions_record, missing_record]"
  unfolding findCollectionDifferences_positional
  by (simp add: sample_eval prod_eval positionalRecord_def differingFields_def upt_rec
      collectionSnapshot_def toString.simps digit_char_def editions_record_def missing_record_def)

text \<open>
  Claim C10: every record the positional differ emits for two grouped lists has
  the id \<open>toString i\<close> of the index \<open>i\<close> it was built from, while the collections at that
  index carry the id \<open>toString (i + 1)\<close>; the record's id differs from both.
\<close>

theorem positional_record_id_one_less:
  assumes "findCollectionDifferences (groupIntoCollections tokens1) (groupIntoCollections tokens2)
             = Inr out"
    and "record \<in> set out"
  shows "\<exists>i. d_id record = toString i \<and>
     record \<in> set (positionalRecord (groupIntoCollections tokens1) (groupIntoCollections tokens2) i) \<and>
     i < max (length (groupIntoCollections tokens1)) (length (groupIntoCollections tokens2)) \<and>
     (i < length (groupIntoCollections tokens1) \<longrightarrow>
        c_id (groupIntoCollections tokens1 ! i) = toString (i + 1) \<and>
        d_id record \<noteq> c_id (groupIntoCollections tokens1 ! i)) \<and>
     (i < length (groupIntoCollections tokens2) \<longrightarrow>
        c_id (groupIntoCollections tokens2 ! i) = toString (i + 1) \<and>
        d_id record \<noteq> c_id (groupIntoCollections tokens2 ! i))"
proof -
  let ?c1 = "groupIntoCollections tokens1" and ?c2 = "groupIntoCollections tokens2"
  have "findCollectionDifferences ?c1 ?c2 =
      Inr (concat (map (positionalRecord ?c1 ?c2) [0..<max (length ?c1) (length ?c2)]))"
    unfolding findCollectionDifferences_def
    by (subst positionalLoop_from) (simp_all add: Map_values_def)
  with assms obtain i where i: "i < max (length ?c1) (length ?c2)"
    "record \<in> set (positionalRecord ?c1 ?c2 i)"
    by auto
  then have id: "d_id record = toString i" by (simp add: set_positionalRecord_id)
  have ne: "toString i \<noteq> toString (i + 1)" by (auto dest: toString_inj)
  have ids: "\<And>ts. i < length (groupIntoCollections ts) \<Longrightarrow>
      c_id (groupIntoCollections ts ! i) = toString (i + 1)"
    by (simp add: groupIntoCollections_def nth_assignIds)
  from i id ne ids show ?thesis by (intro exI [of _ i]) auto
qed

text \<open>Claim C10, at the record of index 0 of the two example lists.\<close>

theorem positional_record_id_one_less_witness:
  "findCollectionDifferences (groupIntoCollections sample_tokens) (groupIntoCollections prod_tokens)
     = Inr [editions_record, missing_record] \<and>
   editions_record \<in> set [editions_record, missing_record] \<and>
   (\<exists>i. d_id editions_record = toString i \<and>
     editions_record \<in> set (positionalRecord (groupIntoCollections sample_tokens) (groupIntoCollections prod_tokens) i) \<and>
     i < max (length (groupIntoCollections sample_tokens)) (length (groupIntoCollections prod_tokens)) \<and>
     (i < length (groupIntoCollections sample_tokens) \<longrightarrow>
        c_id (groupIntoCollections sample_tokens ! i) = toString (i + 1) \<and>
        d_id editions_record \<noteq> c_id (groupIntoCollections sample_tokens ! i)) \<and>
     (i < length (groupIntoCollections prod_tokens) \<longrightarrow>
        c_id (groupIntoCollections prod_tokens ! i) = toString (i + 1) \<and>
        d_id editions_record \<noteq> c_id (groupIntoCollections prod_tokens ! i)))"
proof -
  have m: "editions_record \<in> set [editions_record, missing_record]" by simp
  from positional_record_id_one_less [OF positional_example_eval m] positional_example_eval m show ?thesis by blast
qed


section \<open>Properties of the Token Differ\<close>

lemma Map_of_pairs_snoc: "Map_of_pairs (ps @ [(k, v)]) = Map_set (Map_of_pairs ps) k v"
  by (simp add: Map_of_pairs_def)

lemma map_of_Map_of_pairs: "map_of (Map_of_pairs ps) = map_of (rev ps)"
proof (induction ps rule: rev_induct)
  case Nil
  then show ?case by (simp add: Map_of_pairs_def)
next
  case (snoc p ps)
  obtain k v where p: "p = (k, v)" by (cases p)
  with snoc show ?case by (simp add: Map_of_pairs_snoc map_of_Map_set fun_eq_iff)
qed

lemma distinct_Map_of_pairs: "distinct (map fst (Map_of_pairs ps))"
proof (induction ps rule: rev_induct)
  case Nil
  then show ?case by (simp add: Map_of_pairs_def)
next
  case (snoc p ps)
  obtain k v where p: "p = (k, v)" by (cases p)
  with snoc show ?case by (simp add: Map_of_pairs_snoc distinct_Map_set)
qed

lemma filter_values_by_key:
  assumes "distinct (map fst m)" and "\<forall>p \<in> set m. key (snd p) = fst p"
  shows "filter (\<lambda>r. key r = k) (map snd m) = (case map_of m k of None \<Rightarrow> [] | Some r \<Rightarrow> [r])"
  using assms
proof (induction m)
  case Nil
  then show ?case by simp
next
  case (Cons p m)
  obtain k' v' where p: "p = (k', v')" by (cases p)
  show ?case
  proof (cases "k' = k")
    case True
    with Cons.prems p have "map_of m k = None" by (auto simp: map_of_eq_None_iff)
    with Cons True p show ?thesis by simp
  next
    case False
    with Cons p show ?thesis by simp
  qed
qed

lemma leftStep_other:
  "k \<noteq> t_identifier x \<Longrightarrow> map_of (leftStep M D x) k = map_of D k"
  by (simp add: leftStep_def map_of_Map_set split: option.splits)

lemma leftStep_missing:
  "Map_get M (t_identifier x) = None \<Longrightarrow>
   map_of (leftStep M D x) (t_identifier x) = Some (missingInProd x)"
  by (simp add: leftStep_def map_of_Map_set missingInProd_def)

lemma keyed_Nil [simp]: "keyed key []"
  by (simp add: keyed_def)

lemma keyed_Map_set:
  assumes "keyed key m" and "key v = k"
  shows "keyed key (Map_set m k v)"
proof (cases "map_of m k")
  case None
  with assms show ?thesis
    by (auto simp: keyed_def Map_set_absent map_of_eq_None_iff)
next
  case (Some c)
  from Map_set_present [OF Some, of v] obtain pre post where
    "m = pre @ (k, c) # post" "Map_set m k v = pre @ (k, v) # post" by blast
  with assms show ?thesis by (auto simp: keyed_def)
qed

lemma keyed_filter:
  "keyed key m \<Longrightarrow>
   filter (\<lambda>r. key r = k) (Map_values m) = (case map_of m k of None \<Rightarrow> [] | Some r \<Rightarrow> [r])"
  unfolding keyed_def Map_values_def by (rule filter_values_by_key) simp_all

lemma leftStep_keyed: "keyed d_id D \<Longrightarrow> keyed d_id (leftStep M D x)"
  by (simp add: leftStep_def keyed_Map_set split: option.splits)

lemma rightStep_keyed: "keyed d_id D \<Longrightarrow> keyed d_id (rightStep ids D x)"
  by (simp add: rightStep_def keyed_Map_set)

lemma leftLoop_keyed: "keyed d_id D \<Longrightarrow> keyed d_id (foldl (leftStep M) D xs)"
  by (induction xs arbitrary: D) (simp_all add: leftStep_keyed)

lemma rightLoop_keyed: "keyed d_id D \<Longrightarrow> keyed d_id (foldl (rightStep ids) D xs)"
  by (induction xs arbitrary: D) (simp_all add: rightStep_keyed)

lemma leftLoop_other:
  "k \<notin> t_identifier ` set xs \<Longrightarrow> map_of (foldl (leftStep M) D xs) k = map_of D k"
  by (induction xs arbitrary: D) (auto simp: leftStep_other)

lemma leftLoop_missing:
  assumes "distinct (map t_identifier xs)" and "t \<in> set xs"
    and "Map_get M (t_identifier t) = None"
  shows "map_of (foldl (leftStep M) D xs) (t_identifier t) = Some (missingInProd t)"
  using assms
proof (induction xs arbitrary: D)
  case Nil
  then show ?case by simp
next
  case (Cons x xs)
  show ?case
  proof (cases "x = t")
    case True
    with Cons.prems have "t_identifier t \<notin> t_identifier ` set xs" by auto
    with True Cons.prems show ?thesis by (simp add: leftLoop_other leftStep_missing)
  next
    case False
    with Cons show ?thesis by simp
  qed
qed

lemma rightStep_other:
  "k \<noteq> t_identifier x \<or> k \<in> ids \<Longrightarrow> map_of (rightStep ids D x) k = map_of D k"
  by (auto simp: rightStep_def map_of_Map_set)

lemma rightLoop_other:
  "k \<notin> t_identifier ` set xs \<or> k \<in> ids \<Longrightarrow>
   map_of (foldl (rightStep ids) D xs) k = map_of D k"
  by (induction xs arbitrary: D) (auto simp: rightStep_other)

lemma rightLoop_missing:
  assumes "distinct (map t_identifier xs)" and "u \<in> set xs"
    and "t_identifier u \<notin> ids"
  shows "map_of (foldl (rightStep ids) D xs) (t_identifier u) = Some (missingInSubgraph1 u)"
  using assms
proof (induction xs arbitrary: D)
  case Nil
  then show ?case by simp
next
  case (Cons x xs)
  show ?case
  proof (cases "x = u")
    case True
    with Cons.prems have "t_identifier u \<notin> t_identifier ` set xs" by auto
    with True Cons.prems show ?thesis
      by (simp add: rightLoop_other) (simp add: rightStep_def map_of_Map_set missingInSubgraph1_def)
  next
    case False
    with Cons show ?thesis by simp
  qed
qed

lemma data2Map_None:
  "k \<notin> t_identifier ` set data2 \<Longrightarrow>
   Map_get (Map_of_pairs (map (\<lambda>item. (t_identifier item, item)) data2)) k = None"
  by (simp add: Map_get_def map_of_Map_of_pairs map_of_eq_None_iff rev_map [symmetric] image_image)

lemma findDifferences_filter:
  "filter (\<lambda>r. d_id r = k) (findDifferences data1 data2) =
   (case map_of (foldl (rightStep (set (map t_identifier data1)))
       (foldl (leftStep (Map_of_pairs (map (\<lambda>item. (t_identifier item, item)) data2))) [] data1)
       data2) k of None \<Rightarrow> [] | Some r \<Rightarrow> [r])"
  unfolding findDifferences_def Let_def
  by (rule keyed_filter) (simp add: rightLoop_keyed leftLoop_keyed)

text \<open>
  Claim C3: when the identifiers are unique within each list, the records of the
  report with the id of a token that only the left list has are exactly one record,
  tagged \<^verbatim>\<open>missing_in_prod\<close>, with the snapshot of that token as \<^verbatim>\<open>subgraph1\<close> and
  \<^verbatim>\<open>prod\<close> null; for a token that only the right list has they are exactly one record,
  tagged \<^verbatim>\<open>missing_in_subgraph1\<close>, with \<^verbatim>\<open>subgraph1\<close> null and the snapshot as \<^verbatim>\<open>prod\<close>.
\<close>

theorem findDifferences_one_sided:
  assumes "distinct (map t_identifier data1)" and "distinct (map t_identifier data2)"
  shows "(\<forall>t \<in> set data1. t_identifier t \<notin> t_identifier ` set data2 \<longrightarrow>
            filter (\<lambda>r. d_id r = t_identifier t) (findDifferences data1 data2) =
              [\<lparr>d_id = t_identifier t, d_differences = [''missing_in_prod''],
                d_subgraph = Some (tokenSnapshot t), d_other = None\<rparr>]) \<and>
         (\<forall>u \<in> set data2. t_identifier u \<notin> t_identifier ` set data1 \<longrightarrow>
            filter (\<lambda>r. d_id r = t_identifier u) (findDifferences data1 data2) =
              [\<lparr>d_id = t_identifier u, d_differences = [''missing_in_subgraph1''],
                d_subgraph = None, d_other = Some (tokenSnapshot u)\<rparr>])"
proof (intro conjI ballI impI)
  fix t assume t: "t \<in> set data1" "t_identifier t \<notin> t_identifier ` set data2"
  then have "t_identifier t \<in> set (map t_identifier data1)" by simp
  with t assms(1) show "filter (\<lambda>r. d_id r = t_identifier t) (findDifferences data1 data2) =
      [\<lparr>d_id = t_identifier t, d_differences = [''missing_in_prod''],
        d_subgraph = Some (tokenSnapshot t), d_other = None\<rparr>]"
    by (simp add: findDifferences_filter rightLoop_other leftLoop_missing data2Map_None
        missingInProd_def)
next
  fix u assume u: "u \<in> set data2" "t_identifier u \<notin> t_identifier ` set data1"
  then have "t_identifier u \<notin> set (map t_identifier data1)" by simp
  with u assms(2) show "filter (\<lambda>r. d_id r = t_identifier u) (findDifferences data1 data2) =
      [\<lparr>d_id = t_identifier u, d_differences = [''missing_in_subgraph1''],
        d_subgraph = None, d_other = Some (tokenSnapshot u)\<rparr>]"
    by (simp add: findDifferences_filter rightLoop_missing missingInSubgraph1_def)
qed

text \<open>
  Claim C3, at a left list with the identifiers 1 and 7 and a right list with 1 and 2.
\<close>

theorem findDifferences_one_sided_witness:
  "distinct (map t_identifier left_tokens) \<and> distinct (map t_identifier right_tokens) \<and>
   tok ''7'' ''Owl'' ''Uma'' 1 \<in> set left_tokens \<and>
   t_identifier (tok ''7'' ''Owl'' ''Uma'' 1) \<notin> t_identifier ` set right_tokens \<and>
   filter (\<lambda>r. d_id r = ''7'') (findDifferences left_tokens right_tokens) =
     [\<lparr>d_id = ''7'', d_differences = [''missing_in_prod''],
       d_subgraph = Some \<lparr>ts_name = ''Owl'', ts_artistName = ''Uma'', ts_editions = 1,
                          ts_identifier = ''7''\<rparr>,
       d_other = None\<rparr>] \<and>
   tok ''2'' ''Dog'' ''Ann'' 1 \<in> set right_tokens \<and>
   t_identifier (tok ''2'' ''Dog'' ''Ann'' 1) \<notin> t_identifier ` set left_tokens \<and>
   filter (\<lambda>r. d_id r = ''2'') (findDifferences left_tokens right_tokens) =
     [\<lparr>d_id = ''2'', d_differences = [''missing_in_subgraph1''],
       d_subgraph = None,
       d_other = Some \<lparr>ts_name = ''Dog'', ts_artistName = ''Ann'', ts_editions = 1,
                        ts_identifier = ''2''\<rparr>\<rparr>]"
proof -
  have d: "distinct (map t_identifier left_tokens)" "distinct (map t_identifier right_tokens)"
    by (simp_all add: left_tokens_def right_tokens_def tok_def)
  have l: "tok ''7'' ''Owl'' ''Uma'' 1 \<in> set left_tokens"
    "t_identifier (tok ''7'' ''Owl'' ''Uma'' 1) \<notin> t_identifier ` set right_tokens"
    by (simp_all add: left_tokens_def right_tokens_def tok_def)
  have r: "tok ''2'' ''Dog'' ''Ann'' 1 \<in> set right_tokens"
    "t_identifier (tok ''2'' ''Dog'' ''Ann'' 1) \<notin> t_identifier ` set left_tokens"
    by (simp_all add: left_tokens_def right_tokens_def tok_def)
  from findDifferences_one_sided [OF d] l r have
    "filter (\<lambda>r. d_id r = t_identifier (tok ''7'' ''Owl'' ''Uma'' 1))
       (findDifferences left_tokens right_tokens) =
     [\<lparr>d_id = t_identifier (tok ''7'' ''Owl'' ''Uma'' 1), d_differences = [''missing_in_prod''],
       d_subgraph = Some (tokenSnapshot (tok ''7'' ''Owl'' ''Uma'' 1)), d_other = None\<rparr>]"
    "filter (\<lambda>r. d_id r = t_identifier (tok ''2'' ''Dog'' ''Ann'' 1))
       (findDifferences left_tokens right_tokens) =
     [\<lparr>d_id = t_identifier (tok ''2'' ''Dog'' ''Ann'' 1), d_differences = [''missing_in_subgraph1''],
       d_subgraph = None, d_other = Some (tokenSnapshot (tok ''2'' ''Dog'' ''Ann'' 1))\<rparr>]"
    by blast+
  then have
    "filter (\<lambda>r. d_id r = ''7'') (findDifferences left_tokens right_tokens) =
     [\<lparr>d_id = ''7'', d_differences = [''missing_in_prod''],
       d_subgraph = Some \<lparr>ts_name = ''Owl'', ts_artistName = ''Uma'', ts_editions = 1,
                          ts_identifier = ''7''\<rparr>,
       d_other = None\<rparr>]"
    "filter (\<lambda>r. d_id r = ''2'') (findDifferences left_tokens right_tokens) =
     [\<lparr>d_id = ''2'', d_differences = [''missing_in_subgraph1''],
       d_subgraph = None,
       d_other = Some \<lparr>ts_name = ''Dog'', ts_artistName = ''Ann'', ts_editions = 1,
                        ts_identifier = ''2''\<rparr>\<rparr>]"
    by (simp_all add: tok_def tokenSnapshot_def)
  with d l r show ?thesis by blast
qed

lemma findDifferences_example:
  "findDifferences left_tokens right_tokens =
     [\<lparr>d_id = ''7'', d_differences = [''missing_in_prod''],
       d_subgraph = Some \<lparr>ts_name = ''Owl'', ts_artistName = ''Uma'', ts_editions = 1,
                          ts_identifier = ''7''\<rparr>,
       d_other = None\<rparr>,
      \<lparr>d_id = ''2'', d_differences = [''missing_in_subgraph1''],
       d_subgraph = None,
       d_other = Some \<lparr>ts_name = ''Dog'', ts_artistName = ''Ann'', ts_editions = 1,
                        ts_identifier = ''2''\<rparr>\<rparr>]"
  by (simp add: findDifferences_def left_tokens_def right_tokens_def tok_def Map_of_pairs_def
      leftStep_def rightStep_def Map_get_def diffFields_def tokenSnapshot_def Map_values_def)


section \<open>Properties of the paginated fetch\<close>

lemma fetchLoop_stop:
  "\<not> (hasMore \<and> length allTokens < maxResults) \<Longrightarrow>
   fetchLoop sg allTokens hasMore skip reqs = Some (allTokens, reqs)"
  by (subst fetchLoop.simps) auto

lemma fetchLoop_fail:
  "hasMore \<Longrightarrow> length allTokens < maxResults \<Longrightarrow> sg batchSize skip = None \<Longrightarrow>
   fetchLoop sg allTokens hasMore skip reqs = None"
  by (subst fetchLoop.simps) simp

lemma fetchLoop_empty:
  "hasMore \<Longrightarrow> length allTokens < maxResults \<Longrightarrow> sg batchSize skip = Some [] \<Longrightarrow>
   fetchLoop sg allTokens hasMore skip reqs = Some (allTokens, reqs @ [skip])"
  by (subst fetchLoop.simps) (simp add: fetchLoop_stop)

lemma fetchLoop_more:
  "hasMore \<Longrightarrow> length allTokens < maxResults \<Longrightarrow> sg batchSize skip = Some batch \<Longrightarrow>
   batch \<noteq> [] \<Longrightarrow>
   fetchLoop sg allTokens hasMore skip reqs =
   fetchLoop sg (allTokens @ batch) True (skip + length batch) (reqs @ [skip])"
  by (subst fetchLoop.simps) simp

lemma runOK_Cons:
  assumes "runOK sg (allTokens @ batch) toks new" and "sg batchSize skip = Some batch"
    and "batch \<noteq> []" and "skip = length allTokens" and "skip < maxResults"
  shows "runOK sg allTokens toks (skip # new)"
proof -
  from assms have s: "stopsAt sg skip \<longleftrightarrow> new = []"
    by (auto simp: stopsAt_def runOK_def)
  have "\<forall>i < length (skip # new). (skip # new) ! i < maxResults \<and>
      (stopsAt sg ((skip # new) ! i) \<longleftrightarrow> Suc i = length (skip # new))"
  proof (intro allI impI)
    fix i assume "i < length (skip # new)"
    with assms s show "(skip # new) ! i < maxResults \<and>
      (stopsAt sg ((skip # new) ! i) \<longleftrightarrow> Suc i = length (skip # new))"
      by (cases i) (auto simp: runOK_def)
  qed
  moreover have "\<exists>b. sg batchSize (last (skip # new)) = Some b \<and>
      length toks = last (skip # new) + length b"
    using assms by (cases "new = []") (auto simp: runOK_def)
  moreover have "\<forall>i. Suc i < length (skip # new) \<longrightarrow>
      (\<exists>b. sg batchSize ((skip # new) ! i) = Some b \<and>
           (skip # new) ! Suc i = (skip # new) ! i + length b)"
  proof (intro allI impI)
    fix i assume "Suc i < length (skip # new)"
    with assms show "\<exists>b. sg batchSize ((skip # new) ! i) = Some b \<and>
           (skip # new) ! Suc i = (skip # new) ! i + length b"
      by (cases i) (auto simp: runOK_def hd_conv_nth)
  qed
  ultimately show ?thesis using assms(5,4) by (simp add: runOK_def)
qed

lemma fetchLoop_run:
  assumes "fetchLoop sg allTokens True skip reqs = Some (toks, out)"
    and "skip = length allTokens"
  shows "\<exists>new. out = reqs @ new \<and> runOK sg allTokens toks new"
  using assms
proof (induction "maxResults - length allTokens" arbitrary: allTokens skip reqs rule: less_induct)
  case less
  show ?case
  proof (cases "length allTokens < maxResults")
    case False
    with less.prems have "toks = allTokens" "out = reqs" by (simp_all add: fetchLoop_stop)
    with False show ?thesis by (simp add: runOK_def)
  next
    case lt: True
    show ?thesis
    proof (cases "sg batchSize skip")
      case None
      with lt less.prems show ?thesis by (simp add: fetchLoop_fail)
    next
      case (Some batch)
      show ?thesis
      proof (cases "batch = []")
        case True
        with Some lt less.prems(1) have r: "toks = allTokens" "out = reqs @ [skip]"
          by (simp_all add: fetchLoop_empty)
        from True Some have "stopsAt sg skip" by (simp add: stopsAt_def)
        with r lt less.prems(2) Some True have "runOK sg allTokens toks [skip]"
          by (simp add: runOK_def)
        with r show ?thesis by blast
      next
        case ne: False
        let ?all = "allTokens @ batch" and ?skip = "skip + length batch"
        from ne Some lt less.prems(1)
        have run: "fetchLoop sg ?all True ?skip (reqs @ [skip]) = Some (toks, out)"
          by (simp add: fetchLoop_more)
        from ne lt have dec: "maxResults - length ?all < maxResults - length allTokens"
          by (cases batch) auto
        from less.prems(2) have sk: "?skip = length ?all" by simp
        from less.hyps [OF dec run sk] obtain new where new:
          "out = (reqs @ [skip]) @ new" "runOK sg ?all toks new"
          by blast
        from lt less.prems(2) have "skip < maxResults" by simp
        from runOK_Cons [OF new(2) Some ne less.prems(2) this] new(1)
        show ?thesis by (intro exI [of _ "skip # new"]) simp
      qed
    qed
  qed
qed

lemma fetchLoop_total:
  assumes "\<forall>s. sg batchSize s \<noteq> None"
  shows "\<exists>r. fetchLoop sg allTokens hasMore skip reqs = Some r"
proof (induction "maxResults - length allTokens" arbitrary: allTokens hasMore skip reqs
    rule: less_induct)
  case less
  show ?case
  proof (cases "hasMore \<and> length allTokens < maxResults")
    case False
    then show ?thesis by (simp add: fetchLoop_stop)
  next
    case True
    from assms obtain batch where b: "sg batchSize skip = Some batch" by auto
    show ?thesis
    proof (cases "batch = []")
      case True
      with b \<open>hasMore \<and> length allTokens < maxResults\<close> show ?thesis
        by (simp add: fetchLoop_empty)
    next
      case False
      with True have "maxResults - length (allTokens @ batch) < maxResults - length allTokens"
        by (cases batch) auto
      from less.hyps [OF this] False b True show ?thesis by (simp add: fetchLoop_more)
    qed
  qed
qed

text \<open>
  Claim C5, amended: when no request fails the fetch returns. In every run that
  returns, each request is issued at a total below the cap, the first at total 0 and
  each later one at the total its predecessor reached, and a request is the last one
  exactly when its batch is empty or brings the total to the cap or beyond; a
  non-empty batch shorter than the page size does not end the loop. The number of
  tokens returned is the total at the last request plus the length of its batch;
  when no batch is longer than the page size, it is below cap plus page size.
\<close>

theorem fetchAllData_stops:
  "((\<forall>skip. subgraph batchSize skip \<noteq> None) \<longrightarrow> fetchAllData subgraph \<noteq> None) \<and>
   (\<forall>allTokens requests. fetchAllData subgraph = Some (allTokens, requests) \<longrightarrow>
      (\<forall>i < length requests.
          requests ! i < maxResults \<and>
          (stopsAt subgraph (requests ! i) \<longleftrightarrow> Suc i = length requests)) \<and>
      (requests \<noteq> [] \<and> hd requests = 0) \<and>
      (\<forall>i. Suc i < length requests \<longrightarrow>
          (\<exists>batch. subgraph batchSize (requests ! i) = Some batch \<and>
             requests ! Suc i = requests ! i + length batch)) \<and>
      (\<exists>batch. subgraph batchSize (last requests) = Some batch \<and>
         length allTokens = last requests + length batch) \<and>
      ((\<forall>skip batch. subgraph batchSize skip = Some batch \<longrightarrow> length batch \<le> batchSize) \<longrightarrow>
         length allTokens < maxResults + batchSize))"
proof (intro conjI allI impI)
  assume "\<forall>skip. subgraph batchSize skip \<noteq> None"
  from fetchLoop_total [of subgraph "[]" True 0 "[]", OF this]
  show "fetchAllData subgraph \<noteq> None" by (auto simp: fetchAllData_def)
next
  fix allTokens requests
  assume "fetchAllData subgraph = Some (allTokens, requests)"
  then have "fetchLoop subgraph [] True 0 [] = Some (allTokens, requests)"
    by (simp add: fetchAllData_def)
  from fetchLoop_run [OF this] have ok: "runOK subgraph [] allTokens requests" by simp
  then have ne: "requests \<noteq> []" by (simp add: runOK_def maxResults_def)
  {
    fix i assume "i < length requests"
    with ok show "requests ! i < maxResults" by (simp add: runOK_def)
    from ok \<open>i < length requests\<close>
    show "stopsAt subgraph (requests ! i) \<longleftrightarrow> Suc i = length requests"
      by (simp add: runOK_def)
  }
  from ne show "requests \<noteq> []" .
  from ok ne show "hd requests = 0" by (simp add: runOK_def)
  {
    fix i assume "Suc i < length requests"
    with ok show "\<exists>batch. subgraph batchSize (requests ! i) = Some batch \<and>
             requests ! Suc i = requests ! i + length batch"
      by (simp add: runOK_def)
  }
  from ok ne obtain b where b: "subgraph batchSize (last requests) = Some b"
    "length allTokens = last requests + length b" by (auto simp: runOK_def)
  then show "\<exists>batch. subgraph batchSize (last requests) = Some batch \<and>
         length allTokens = last requests + length batch" by blast
  assume bound: "\<forall>skip batch. subgraph batchSize skip = Some batch \<longrightarrow> length batch \<le> batchSize"
  from ok ne have "last requests < maxResults"
    by (simp add: runOK_def last_conv_nth)
  with b bound show "length allTokens < maxResults + batchSize"
    by (metis add_less_le_mono)
qed

lemma shortFirst_tail:
  "k \<le> 50 \<Longrightarrow>
   fetchLoop shortFirstSubgraph (replicate (999 + 1000 * (50 - k)) sample_token) True
     (999 + 1000 * (50 - k)) reqs =
   Some (replicate 50999 sample_token, reqs @ map (\<lambda>j. 999 + 1000 * j) [50 - k..<50])"
proof (induction k arbitrary: reqs)
  case 0
  then show ?case by (simp add: fetchLoop_stop maxResults_def)
next
  case (Suc k)
  let ?n = "999 + 1000 * (50 - Suc k)"
  from Suc.prems have n: "?n + 1000 = 999 + 1000 * (50 - k)" by simp
  have b: "shortFirstSubgraph batchSize ?n = Some (replicate 1000 sample_token)"
    by (simp add: shortFirstSubgraph_def batchSize_def)
  from Suc.prems have lt: "length (replicate ?n sample_token) < maxResults"
    by (simp add: maxResults_def)
  have "fetchLoop shortFirstSubgraph (replicate ?n sample_token) True ?n reqs =
        fetchLoop shortFirstSubgraph (replicate ?n sample_token @ replicate 1000 sample_token)
          True (?n + length (replicate 1000 sample_token)) (reqs @ [?n])"
    using lt b
    by (intro fetchLoop_more [where batch = "replicate 1000 sample_token"]) simp_all
  also have "\<dots> = fetchLoop shortFirstSubgraph (replicate (999 + 1000 * (50 - k)) sample_token)
          True (999 + 1000 * (50 - k)) (reqs @ [?n])"
  proof -
    have "replicate ?n sample_token @ replicate 1000 sample_token =
        replicate (?n + 1000) sample_token"
      by (simp only: replicate_add)
    moreover have "?n + length (replicate 1000 sample_token) = ?n + 1000"
      by (simp only: length_replicate)
    ultimately show ?thesis by (simp only: n)
  qed
  also have "\<dots> = Some (replicate 50999 sample_token,
      (reqs @ [?n]) @ map (\<lambda>j. 999 + 1000 * j) [50 - k..<50])"
    using Suc.prems by (intro Suc.IH) simp
  also have "(reqs @ [?n]) @ map (\<lambda>j. 999 + 1000 * j) [50 - k..<50] =
      reqs @ map (\<lambda>j. 999 + 1000 * j) [50 - Suc k..<50]"
  proof -
    from Suc.prems have "Suc (50 - Suc k) = 50 - k" "50 - Suc k < 50" by linarith+
    then have "[50 - Suc k..<50] = (50 - Suc k) # [50 - k..<50]"
      by (metis upt_conv_Cons)
    then show ?thesis by simp
  qed
  finally show ?case .
qed

lemma shortFirst_run:
  "fetchAllData shortFirstSubgraph =
     Some (replicate 50999 sample_token, 0 # map (\<lambda>j. 999 + 1000 * j) [0..<50])"
proof -
  have b: "shortFirstSubgraph batchSize 0 = Some (replicate 999 sample_token)"
    by (simp add: shortFirstSubgraph_def batchSize_def)
  have "fetchLoop shortFirstSubgraph [] True 0 [] =
        fetchLoop shortFirstSubgraph ([] @ replicate 999 sample_token) True
          (0 + length (replicate 999 sample_token)) ([] @ [0])"
    using b
    by (intro fetchLoop_more [where batch = "replicate 999 sample_token"])
       (simp_all add: maxResults_def)
  also have "\<dots> = fetchLoop shortFirstSubgraph (replicate (999 + 1000 * (50 - 50)) sample_token)
      True (999 + 1000 * (50 - 50)) [0]"
    by simp
  also have "\<dots> = Some (replicate 50999 sample_token,
      [0] @ map (\<lambda>j. 999 + 1000 * j) [50 - 50..<50])"
    by (rule shortFirst_tail) simp
  finally show ?thesis by (simp add: fetchAllData_def)
qed

text \<open>
  Claim C5 as stated: the first batch has 999 records, fewer than the page size
  1000, and 50 more requests follow it; 50999 tokens are returned, more than the
  cap 50000.
\<close>

theorem fetchAllData_short_batch_continues:
  "shortFirstSubgraph batchSize 0 = Some (replicate 999 sample_token) \<and>
   length (replicate 999 sample_token) < batchSize \<and>
   length (requestsOf (fetchAllData shortFirstSubgraph)) = 51 \<and>
   requestsOf (fetchAllData shortFirstSubgraph) ! 1 = 999 \<and>
   length (fetchedTokens (fetchAllData shortFirstSubgraph)) = 50999 \<and>
   maxResults < length (fetchedTokens (fetchAllData shortFirstSubgraph))"
  by (simp add: shortFirst_run requestsOf_def fetchedTokens_def maxResults_def batchSize_def
      shortFirstSubgraph_def upt_conv_Cons)

lemma threeToken_run:
  "fetchAllData threeTokenSubgraph =
     Some ([tok ''1'' ''Cat'' ''Bob'' 2, tok ''2'' ''Dog'' ''Ann'' 1, tok ''3'' ''Cat'' ''Bob'' 2],
           [0, 3])"
  by (simp add: fetchAllData_def fetchLoop.simps threeTokenSubgraph_def batchSize_def
      maxResults_def)

text \<open>
  Claim C5, amended, at an endpoint with three tokens: the request at 0 is answered
  with all three, the request at 3 with none, and it is the last one.
\<close>

theorem fetchAllData_stops_witness:
  "fetchAllData threeTokenSubgraph \<noteq> None \<and>
   fetchAllData threeTokenSubgraph =
     Some ([tok ''1'' ''Cat'' ''Bob'' 2, tok ''2'' ''Dog'' ''Ann'' 1, tok ''3'' ''Cat'' ''Bob'' 2],
           [0, 3]) \<and>
   [0, 3 :: nat] ! 0 < maxResults \<and> \<not> stopsAt threeTokenSubgraph ([0, 3] ! 0) \<and>
   [0, 3 :: nat] ! 1 < maxResults \<and> stopsAt threeTokenSubgraph ([0, 3] ! 1) \<and>
   threeTokenSubgraph batchSize ([0, 3] ! 0) = Some [tok ''1'' ''Cat'' ''Bob'' 2,
      tok ''2'' ''Dog'' ''Ann'' 1, tok ''3'' ''Cat'' ''Bob'' 2] \<and>
   length [tok ''1'' ''Cat'' ''Bob'' 2, tok ''2'' ''Dog'' ''Ann'' 1, tok ''3'' ''Cat'' ''Bob'' 2]
     < maxResults + batchSize"
proof -
  have t: "\<forall>skip. threeTokenSubgraph batchSize skip \<noteq> None"
    by (simp add: threeTokenSubgraph_def)
  have b: "\<forall>skip batch. threeTokenSubgraph batchSize skip = Some batch \<longrightarrow>
      length batch \<le> batchSize"
    by (auto simp: threeTokenSubgraph_def)
  have s: "threeTokenSubgraph batchSize ([0, 3] ! 0) = Some [tok ''1'' ''Cat'' ''Bob'' 2,
      tok ''2'' ''Dog'' ''Ann'' 1, tok ''3'' ''Cat'' ''Bob'' 2]"
    by (simp add: threeTokenSubgraph_def batchSize_def)
  from fetchAllData_stops [of threeTokenSubgraph] t b threeToken_run
  have n: "fetchAllData threeTokenSubgraph \<noteq> None"
    and q: "\<forall>i < length [0, 3 :: nat]. [0, 3 :: nat] ! i < maxResults \<and>
          (stopsAt threeTokenSubgraph ([0, 3] ! i) \<longleftrightarrow> Suc i = length [0, 3 :: nat])"
    and l: "length [tok ''1'' ''Cat'' ''Bob'' 2, tok ''2'' ''Dog'' ''Ann'' 1,
          tok ''3'' ''Cat'' ''Bob'' 2] < maxResults + batchSize"
    by blast+
  from q [rule_format, of 0] q [rule_format, of 1]
  have "[0, 3 :: nat] ! 0 < maxResults \<and> \<not> stopsAt threeTokenSubgraph ([0, 3] ! 0) \<and>
    [0, 3 :: nat] ! 1 < maxResults \<and> stopsAt threeTokenSubgraph ([0, 3] ! 1)"
    by simp
  with n l threeToken_run s show ?thesis by blast
qed


section \<open>Properties of the contract comparison\<close>

lemma fetchOne_loop:
  "foldl (fetchOne g) st xs = (fst st, snd st @ map (logLine g) xs)"
proof (induction xs arbitrary: st)
  case Nil
  then show ?case by simp
next
  case (Cons x xs)
  then show ?case by (cases st) (simp add: fetchOne_def logLine_def split: sum.splits)
qed

lemma fetchBatches_eq:
  "fetchBatches g cols i st = (fst st, snd st @ map (logLine g) (drop i cols))"
proof (induction g cols i st rule: fetchBatches.induct)
  case (1 g cols i st)
  show ?case
  proof (cases "i < length cols")
    case False
    then show ?thesis by (subst fetchBatches.simps) simp
  next
    case True
    have "drop i cols = take 10 (drop i cols) @ drop (i + 10) cols"
      by (metis append_take_drop_id drop_drop add.commute)
    then have "map (logLine g) (drop i cols) =
        map (logLine g) (slice cols i (i + 10)) @ map (logLine g) (drop (i + 10) cols)"
      by (metis slice_def add_diff_cancel_left' map_append)
    with True "1.IH" [OF True] show ?thesis
      by (subst fetchBatches.simps) (simp add: fetchOne_loop)
  qed
qed

lemma compareStep_safe:
  "Record_get cd (fc_id c) \<noteq> Inherited \<Longrightarrow>
   compareStep p cd acc c = Inr (acc @ stepRecords p cd c)"
  by (simp add: compareStep_def stepRecords_def split: Lookup.splits)

lemma compareStep_inherited:
  "Record_get cd (fc_id c) = Inherited \<Longrightarrow> compareStep p cd acc c = Inl TypeError"
  by (simp add: compareStep_def)

lemma stepRecords_undefined:
  "Record_get cd (fc_id c) = Undefined \<Longrightarrow> stepRecords p cd c = [missingInContract c]"
  by (simp add: compareStep_def stepRecords_def missingInContract_def subgraphSnapshot_def)

lemma compareLoop_safe:
  "\<forall>c \<in> set cs. Record_get cd (fc_id c) \<noteq> Inherited \<Longrightarrow>
   compareLoop p cd acc cs = Inr (acc @ concat (map (stepRecords p cd) cs))"
  by (induction cs arbitrary: acc) (simp_all add: compareStep_safe)

lemma compareLoop_inherited:
  assumes "\<forall>c \<in> set before. Record_get cd (fc_id c) \<noteq> Inherited"
    and "Record_get cd (fc_id c) = Inherited"
  shows "compareLoop p cd acc (before @ c # after) = Inl TypeError"
  using assms(1)
  by (induction before arbitrary: acc)
     (simp_all add: compareStep_safe compareStep_inherited [OF assms(2)])

lemma last_toString: "last (toString n) = digit_char (n mod 10)"
  by (subst toString.simps) simp

lemma toString_not_inherited: "toString n \<notin> set objectPrototypeMembers"
proof
  assume a: "toString n \<in> set objectPrototypeMembers"
  have "n mod 10 < 10" by simp
  from lt10 [OF this] have "last (toString n) \<in> set ''0123456789''"
    unfolding last_toString digit_char_def by auto
  with a show False by (auto simp: objectPrototypeMembers_def)
qed

text \<open>
  Claim C6, amended: when no collection of the list reads a member inherited from
  \<^verbatim>\<open>Object.prototype\<close>, \<^verbatim>\<open>compareData\<close> returns a report, and a collection whose id has no
  entry in the contract data and names no inherited member contributes the record
  tagged \<^verbatim>\<open>missing_in_contract\<close> with the subgraph snapshot and \<^verbatim>\<open>contract\<close> null, between
  the records of the collections before it and of those after it.
  \<^verbatim>\<open>fetchContractMetadata\<close> handles every collection, whether its read fails or not, and
  returns contract data without any entry, so when no collection id names an inherited
  member the comparison of the fetched data gives that record for every collection.
  The decimal ids the grouper assigns never name an inherited member.
\<close>

theorem compareData_missing_in_contract:
  "((\<forall>c \<in> set (before @ collection # after). Record_get contractData (fc_id c) \<noteq> Inherited) \<longrightarrow>
      (\<exists>b a. compareData parseInt contractData before = Inr b \<and>
             compareData parseInt contractData after = Inr a \<and>
             (Record_get contractData (fc_id collection) = Undefined \<longrightarrow>
                compareData parseInt contractData (before @ collection # after) =
                  Inr (b @
                       [\<lparr>d_id = fc_id collection, d_differences = [''missing_in_contract''],
                         d_subgraph = Some \<lparr>cs_name = fc_name collection,
                                             cs_artistName = fc_artistName collection,
                                             cs_editions = fc_editions collection\<rparr>,
                         d_other = None\<rparr>] @ a)))) \<and>
   fst (fetchContractMetadata getMetadata collectionsData) = [] \<and>
   map logId (snd (fetchContractMetadata getMetadata collectionsData)) =
     map fc_id collectionsData \<and>
   ((\<forall>c \<in> set collectionsData. fc_id c \<notin> set objectPrototypeMembers) \<longrightarrow>
      compareData parseInt (fst (fetchContractMetadata getMetadata collectionsData))
        collectionsData =
        Inr (map (\<lambda>collection.
                    \<lparr>d_id = fc_id collection, d_differences = [''missing_in_contract''],
                     d_subgraph = Some \<lparr>cs_name = fc_name collection,
                                         cs_artistName = fc_artistName collection,
                                         cs_editions = fc_editions collection\<rparr>,
                     d_other = None\<rparr>) collectionsData)) \<and>
   toString n \<notin> set objectPrototypeMembers"
proof (intro conjI impI)
  assume safe: "\<forall>c \<in> set (before @ collection # after).
      Record_get contractData (fc_id c) \<noteq> Inherited"
  let ?b = "concat (map (stepRecords parseInt contractData) before)"
  let ?a = "concat (map (stepRecords parseInt contractData) after)"
  from safe have b: "compareData parseInt contractData before = Inr ?b"
    by (simp add: compareData_def compareLoop_safe)
  from safe have a: "compareData parseInt contractData after = Inr ?a"
    by (simp add: compareData_def compareLoop_safe)
  from safe have all: "compareData parseInt contractData (before @ collection # after) =
      Inr (?b @ stepRecords parseInt contractData collection @ ?a)"
    by (simp add: compareData_def compareLoop_safe)
  have "Record_get contractData (fc_id collection) = Undefined \<longrightarrow>
      compareData parseInt contractData (before @ collection # after) =
        Inr (?b @ [missingInContract collection] @ ?a)"
    using all by (simp add: stepRecords_undefined)
  with a b show "\<exists>b a. compareData parseInt contractData before = Inr b \<and>
             compareData parseInt contractData after = Inr a \<and>
             (Record_get contractData (fc_id collection) = Undefined \<longrightarrow>
                compareData parseInt contractData (before @ collection # after) =
                  Inr (b @
                       [\<lparr>d_id = fc_id collection, d_differences = [''missing_in_contract''],
                         d_subgraph = Some \<lparr>cs_name = fc_name collection,
                                             cs_artistName = fc_artistName collection,
                                             cs_editions = fc_editions collection\<rparr>,
                         d_other = None\<rparr>] @ a))"
    unfolding missingInContract_def by blast
next
  show e: "fst (fetchContractMetadata getMetadata collectionsData) = []"
    by (simp add: fetchContractMetadata_def fetchBatches_eq)
  have "\<And>c. logId (logLine getMetadata c) = fc_id c"
    by (simp add: logLine_def split: sum.splits)
  then show "map logId (snd (fetchContractMetadata getMetadata collectionsData)) =
     map fc_id collectionsData"
    by (simp add: fetchContractMetadata_def fetchBatches_eq)
  show "toString n \<notin> set objectPrototypeMembers" by (rule toString_not_inherited)
  assume ids: "\<forall>c \<in> set collectionsData. fc_id c \<notin> set objectPrototypeMembers"
  then have u: "\<forall>c \<in> set collectionsData.
      Record_get ([] :: ContractMetadata Record) (fc_id c) = Undefined"
    by (simp add: Record_get_def)
  then have "\<forall>c \<in> set collectionsData.
      Record_get ([] :: ContractMetadata Record) (fc_id c) \<noteq> Inherited" by simp
  then have "compareData parseInt [] collectionsData =
      Inr (concat (map (stepRecords parseInt []) collectionsData))"
    by (simp add: compareData_def compareLoop_safe)
  also from u have "concat (map (stepRecords parseInt []) collectionsData) =
      map missingInContract collectionsData"
    by (induction collectionsData) (simp_all add: stepRecords_undefined)
  finally show "compareData parseInt (fst (fetchContractMetadata getMetadata collectionsData))
        collectionsData =
        Inr (map (\<lambda>collection.
                    \<lparr>d_id = fc_id collection, d_differences = [''missing_in_contract''],
                     d_subgraph = Some \<lparr>cs_name = fc_name collection,
                                         cs_artistName = fc_artistName collection,
                                         cs_editions = fc_editions collection\<rparr>,
                     d_other = None\<rparr>) collectionsData)"
    unfolding e missingInContract_def .
qed


text \<open>
  Claim C6 as stated: the collection with the id \<^verbatim>\<open>constructor\<close>, whose contract read
  fails, has no entry in the fetched contract data, yet the comparison emits no record
  for it and ends with a \<^verbatim>\<open>TypeError\<close>, the collection after it unprocessed.
\<close>

theorem compareData_inherited_member_aborts:
  "fst (fetchContractMetadata rejectingContract constructor_collections) = [] \<and>
   snd (fetchContractMetadata rejectingContract constructor_collections) =
     [FetchError ''constructor'' ''invalid BigNumber string'', Fetched ''2''] \<and>
   compareData parseDecimal (fst (fetchContractMetadata rejectingContract constructor_collections))
     constructor_collections = Inl TypeError"
  by (simp add: fetchContractMetadata_def fetchBatches.simps slice_def fetchOne_def
      constructor_collections_def rejectingContract_def compareData_def compareStep_def
      Record_get_def objectPrototypeMembers_def)

text \<open>
  Claim C6, amended, at two collections with the ids 1 and 2 of which the contract
  read of the second one fails.
\<close>

theorem compareData_missing_in_contract_witness:
  "Record_get ([] :: ContractMetadata Record) (fc_id (subgraph_collections ! 0)) \<noteq> Inherited \<and>
   Record_get ([] :: ContractMetadata Record) (fc_id (subgraph_collections ! 1)) = Undefined \<and>
   compareData parseDecimal [] ([subgraph_collections ! 0] @ subgraph_collections ! 1 # []) =
     Inr ([\<lparr>d_id = ''1'', d_differences = [''missing_in_contract''],
            d_subgraph = Some \<lparr>cs_name = ''Cat'', cs_artistName = ''Bob'', cs_editions = 2\<rparr>,
            d_other = None\<rparr>] @
          [\<lparr>d_id = fc_id (subgraph_collections ! 1), d_differences = [''missing_in_contract''],
            d_subgraph = Some \<lparr>cs_name = fc_name (subgraph_collections ! 1),
                                cs_artistName = fc_artistName (subgraph_collections ! 1),
                                cs_editions = fc_editions (subgraph_collections ! 1)\<rparr>,
            d_other = None\<rparr>] @ []) \<and>
   fc_id (subgraph_collections ! 0) \<notin> set objectPrototypeMembers \<and>
   fc_id (subgraph_collections ! 1) \<notin> set objectPrototypeMembers \<and>
   snd (fetchContractMetadata failingContract subgraph_collections) =
     [Fetched ''1'', FetchError ''2'' ''call revert exception''] \<and>
   compareData parseDecimal (fst (fetchContractMetadata failingContract subgraph_collections))
     subgraph_collections =
     Inr [\<lparr>d_id = ''1'', d_differences = [''missing_in_contract''],
           d_subgraph = Some \<lparr>cs_name = ''Cat'', cs_artistName = ''Bob'', cs_editions = 2\<rparr>,
           d_other = None\<rparr>,
          \<lparr>d_id = ''2'', d_differences = [''missing_in_contract''],
           d_subgraph = Some \<lparr>cs_name = ''Dog'', cs_artistName = ''Ann'', cs_editions = 1\<rparr>,
           d_other = None\<rparr>]"
proof -
  let ?cd = "[] :: ContractMetadata Record"
  have l: "snd (fetchContractMetadata failingContract subgraph_collections) =
     [Fetched ''1'', FetchError ''2'' ''call revert exception'']"
    by (simp add: fetchContractMetadata_def fetchBatches.simps slice_def fetchOne_def
        subgraph_collections_def failingContract_def)
  have n0: "fc_id (subgraph_collections ! 0) \<notin> set objectPrototypeMembers"
    and n1: "fc_id (subgraph_collections ! 1) \<notin> set objectPrototypeMembers"
    by (simp_all add: subgraph_collections_def objectPrototypeMembers_def)
  then have g0: "Record_get ?cd (fc_id (subgraph_collections ! 0)) \<noteq> Inherited"
    and g1: "Record_get ?cd (fc_id (subgraph_collections ! 1)) = Undefined"
    by (simp_all add: Record_get_def)
  then have safe: "\<forall>c \<in> set ([subgraph_collections ! 0] @ subgraph_collections ! 1 # []).
      Record_get ?cd (fc_id c) \<noteq> Inherited" by simp
  from n0 n1 have ids: "\<forall>c \<in> set subgraph_collections. fc_id c \<notin> set objectPrototypeMembers"
    by (simp add: subgraph_collections_def)
  note inst = compareData_missing_in_contract [of "[subgraph_collections ! 0]" "subgraph_collections ! 1" "[]" ?cd
      parseDecimal failingContract subgraph_collections 0]
  from inst safe g1 obtain b a where ba:
    "compareData parseDecimal ?cd [subgraph_collections ! 0] = Inr b"
    "compareData parseDecimal ?cd [] = Inr a"
    "compareData parseDecimal ?cd ([subgraph_collections ! 0] @ subgraph_collections ! 1 # []) =
       Inr (b @
         [\<lparr>d_id = fc_id (subgraph_collections ! 1), d_differences = [''missing_in_contract''],
           d_subgraph = Some \<lparr>cs_name = fc_name (subgraph_collections ! 1),
                               cs_artistName = fc_artistName (subgraph_collections ! 1),
                               cs_editions = fc_editions (subgraph_collections ! 1)\<rparr>,
           d_other = None\<rparr>] @ a)"
    by blast
  from ba(1) have b: "b = [\<lparr>d_id = ''1'', d_differences = [''missing_in_contract''],
            d_subgraph = Some \<lparr>cs_name = ''Cat'', cs_artistName = ''Bob'', cs_editions = 2\<rparr>,
            d_other = None\<rparr>]"
    by (simp add: compareData_def compareStep_def Record_get_def objectPrototypeMembers_def
        subgraph_collections_def subgraphSnapshot_def)
  from ba(2) have a: "a = []" by (simp add: compareData_def)
  from inst ids have c: "compareData parseDecimal
      (fst (fetchContractMetadata failingContract subgraph_collections)) subgraph_collections =
      Inr (map (\<lambda>collection.
            \<lparr>d_id = fc_id collection, d_differences = [''missing_in_contract''],
             d_subgraph = Some \<lparr>cs_name = fc_name collection,
                                 cs_artistName = fc_artistName collection,
                                 cs_editions = fc_editions collection\<rparr>,
             d_other = None\<rparr>) subgraph_collections)"
    by blast
  have "compareData parseDecimal
      (fst (fetchContractMetadata failingContract subgraph_collections)) subgraph_collections =
     Inr [\<lparr>d_id = ''1'', d_differences = [''missing_in_contract''],
           d_subgraph = Some \<lparr>cs_name = ''Cat'', cs_artistName = ''Bob'', cs_editions = 2\<rparr>,
           d_other = None\<rparr>,
          \<lparr>d_id = ''2'', d_differences = [''missing_in_contract''],
           d_subgraph = Some \<lparr>cs_name = ''Dog'', cs_artistName = ''Ann'', cs_editions = 1\<rparr>,
           d_other = None\<rparr>]"
    unfolding c by (simp add: subgraph_collections_def)
  with ba(3) a b l n0 n1 g0 g1 show ?thesis by simp
qed


lemma Set_of_list_snoc:
  "Set_of_list (xs @ [x]) = (if x \<in> set (Set_of_list xs) then Set_of_list xs else Set_of_list xs @ [x])"
  by (simp add: Set_of_list_def)

lemma Set_of_list_props: "distinct (Set_of_list xs) \<and> set (Set_of_list xs) = set xs"
proof (induction xs rule: rev_induct)
  case Nil
  then show ?case by (simp add: Set_of_list_def)
next
  case (snoc x xs)
  then show ?case by (auto simp: Set_of_list_snoc)
qed

lemma compareOne_append: "compareOne sm cm acc k = acc @ compareOne sm cm [] k"
  by (simp add: compareOne_def split: option.splits)

lemma compareOne_loop:
  "foldl (compareOne sm cm) acc ks = acc @ concat (map (compareOne sm cm []) ks)"
proof (induction ks arbitrary: acc)
  case Nil
  then show ?case by simp
next
  case (Cons k ks)
  show ?case by (simp add: Cons.IH [of "compareOne sm cm acc k"]) (subst compareOne_append, simp)
qed

lemma compareOne_id: "r \<in> set (compareOne sm cm [] k) \<Longrightarrow> d_id r = k"
  by (auto simp: compareOne_def split: option.splits if_splits)

lemma filter_concat_by_key:
  assumes "distinct ks" and "\<And>i r. r \<in> set (f i) \<Longrightarrow> key r = i"
  shows "filter (\<lambda>r. key r = k) (concat (map f ks)) = (if k \<in> set ks then f k else [])"
  using assms(1)
proof (induction ks)
  case Nil
  then show ?case by simp
next
  case (Cons a ks)
  have same: "filter (\<lambda>r. key r = k) (f k) = f k"
    using assms(2) by (simp add: filter_id_conv)
  have other: "a \<noteq> k \<Longrightarrow> filter (\<lambda>r. key r = k) (f a) = []"
    using assms(2) by (auto simp: filter_empty_conv)
  from Cons show ?case by (cases "a = k") (simp_all add: same other)
qed

lemma keys_Map_of_pairs: "fst ` set (Map_of_pairs ps) = fst ` set ps"
proof -
  have "dom (map_of (Map_of_pairs ps)) = dom (map_of (rev ps))"
    by (simp add: map_of_Map_of_pairs)
  then show ?thesis by (simp add: dom_map_of_conv_image_fst)
qed

lemma map_of_rev_convert:
  "map_of (rev (map (\<lambda>(cid, m). (cid, f cid m)) (filter (\<lambda>(cid, m). cid \<noteq> x) ps))) k =
     (if k = x then None else map_option (f k) (map_of (rev ps) k))"
proof (induction ps rule: rev_induct)
  case Nil
  then show ?case by simp
next
  case (snoc p ps)
  then show ?case by (cases p) (auto split: if_splits)
qed

lemma Record_set_loop:
  "map_of acc ''__proto__'' = None \<Longrightarrow>
   foldl (\<lambda>obj (cid, metadata).
        Record_set obj cid
          \<lparr>cc_name = m_name metadata, cc_artistName = m_artistName metadata,
           cc_editions = parseInt (toString (m_editions metadata)), cc_id = cid\<rparr>) acc contractData =
   foldl (\<lambda>m (k, v). Map_set m k v) acc
     (map (\<lambda>(cid, m). (cid, toContractCollection parseInt cid m))
        (filter (\<lambda>(cid, m). cid \<noteq> ''__proto__'') contractData))"
proof (induction contractData arbitrary: acc)
  case Nil
  then show ?case by simp
next
  case (Cons p ps)
  obtain cid m where p: "p = (cid, m)" by (cases p)
  show ?case
  proof (cases "cid = ''__proto__''")
    case True
    with Cons p show ?thesis by (simp add: Record_set_def)
  next
    case False
    let ?acc = "Map_set acc cid (toContractCollection parseInt cid m)"
    from False Cons.prems have "map_of ?acc ''__proto__'' = None"
      by (simp add: map_of_Map_set)
    from Cons.IH [OF this] False p show ?thesis
      by (simp add: Record_set_def toContractCollection_def)
  qed
qed

lemma contractCollections_eq:
  "contractCollections parseInt contractData =
     Map_of_pairs (map (\<lambda>(cid, m). (cid, toContractCollection parseInt cid m))
       (filter (\<lambda>(cid, m). cid \<noteq> ''__proto__'') contractData))"
  by (simp add: contractCollections_def Map_of_pairs_def Record_set_loop)

lemma keyed_Map_of_pairs:
  "(\<And>p. p \<in> set ps \<Longrightarrow> key (snd p) = fst p) \<Longrightarrow> keyed key (Map_of_pairs ps)"
proof (induction ps rule: rev_induct)
  case Nil
  then show ?case by (simp add: Map_of_pairs_def)
next
  case (snoc p ps)
  then show ?case by (cases p) (auto simp: Map_of_pairs_snoc intro!: keyed_Map_set)
qed

lemma keyed_pairs: "keyed key m \<Longrightarrow> map (\<lambda>c. (key c, c)) (map snd m) = m"
  by (induction m) (auto simp: keyed_def)

lemma distinct_map_of_rev: "distinct (map fst m) \<Longrightarrow> map_of (rev m) = map_of m"
  by (metis distinct_rev map_of_inject_set rev_map set_rev)

lemma contractCollectionsMap_lookup:
  "map_of (contractCollectionsMap parseInt contractData) k =
     (if k = ''__proto__'' then None else contractSide parseInt contractData k)"
proof -
  let ?M = "contractCollections parseInt contractData"
  have k: "keyed cc_id ?M"
    unfolding contractCollections_eq
    by (rule keyed_Map_of_pairs) (auto simp: toContractCollection_def)
  then have "map (\<lambda>collection. (cc_id collection, collection)) (map snd ?M) = ?M"
    by (rule keyed_pairs)
  then have "map_of (contractCollectionsMap parseInt contractData) = map_of (rev ?M)"
    by (simp add: contractCollectionsMap_def map_of_Map_of_pairs)
  also from k have "\<dots> = map_of ?M" by (simp add: distinct_map_of_rev keyed_def)
  finally show ?thesis
    by (simp add: contractCollections_eq map_of_Map_of_pairs map_of_rev_convert contractSide_def)
qed

lemma contractCollectionsMap_lookup_safe:
  assumes "''__proto__'' \<notin> fst ` set contractData"
  shows "map_of (contractCollectionsMap parseInt contractData) k =
         contractSide parseInt contractData k"
proof (cases "k = ''__proto__''")
  case True
  with assms have "map_of (rev contractData) k = None"
    by (simp add: map_of_eq_None_iff)
  with True show ?thesis by (simp add: contractCollectionsMap_lookup contractSide_def)
next
  case False
  then show ?thesis by (simp add: contractCollectionsMap_lookup)
qed

lemma subgraphCollectionsMap_lookup:
  "map_of (subgraphCollectionsMap collectionsData) k = subgraphSide collectionsData k"
  by (simp add: subgraphCollectionsMap_def map_of_Map_of_pairs subgraphSide_def)

lemma allIds_member:
  "k \<in> set (Set_of_list (Map_keys sm @ Map_keys cm)) \<longleftrightarrow> map_of sm k \<noteq> None \<or> map_of cm k \<noteq> None"
  by (simp add: Set_of_list_props Map_keys_def map_of_eq_None_iff)


text \<open>
  Claim C4, amended: when \<^verbatim>\<open>__proto__\<close> is not a key of the contract data, the records of
  the keyed comparison with the id \<open>k\<close> are: none when neither side has the key; one
  record tagged \<^verbatim>\<open>missing_in_subgraph\<close> with the contract collection when only the
  contract side has it; one record tagged \<^verbatim>\<open>missing_in_contract\<close> with the subgraph
  collection when only the subgraph side has it; and when both have it, none if name,
  artistName and editions agree and otherwise one record with both collections and
  the tags of the differing fields.
\<close>

theorem compareCollectionData_by_key:
  assumes "''__proto__'' \<notin> fst ` set contractData"
  shows
  "filter (\<lambda>r. d_id r = k) (compareCollectionData parseInt contractData collectionsData) =
     (case subgraphSide collectionsData k of
        None \<Rightarrow>
          (case contractSide parseInt contractData k of
             None \<Rightarrow> []
           | Some c \<Rightarrow>
               [\<lparr>d_id = k, d_differences = [''missing_in_subgraph''],
                 d_subgraph = None, d_other = Some c\<rparr>])
      | Some s \<Rightarrow>
          (case contractSide parseInt contractData k of
             None \<Rightarrow>
               [\<lparr>d_id = k, d_differences = [''missing_in_contract''],
                 d_subgraph = Some s, d_other = None\<rparr>]
           | Some c \<Rightarrow>
               if fc_name s = cc_name c \<and> fc_artistName s = cc_artistName c \<and>
                  fc_editions s = cc_editions c
               then []
               else [\<lparr>d_id = k, d_differences = differingKinds s c,
                      d_subgraph = Some s, d_other = Some c\<rparr>]))"
proof -
  let ?sm = "subgraphCollectionsMap collectionsData"
  let ?cm = "contractCollectionsMap parseInt contractData"
  let ?ids = "Set_of_list (Map_keys ?sm @ Map_keys ?cm)"
  have "filter (\<lambda>r. d_id r = k) (compareCollectionData parseInt contractData collectionsData) =
      filter (\<lambda>r. d_id r = k) (concat (map (compareOne ?sm ?cm []) ?ids))"
    by (simp add: compareCollectionData_def Let_def compareOne_loop)
  also have "\<dots> = (if k \<in> set ?ids then compareOne ?sm ?cm [] k else [])"
    by (rule filter_concat_by_key) (simp_all add: Set_of_list_props compareOne_id)
  also have "\<dots> = (if subgraphSide collectionsData k \<noteq> None \<or>
        contractSide parseInt contractData k \<noteq> None
      then compareOne ?sm ?cm [] k else [])"
    by (simp only: allIds_member subgraphCollectionsMap_lookup
        contractCollectionsMap_lookup_safe [OF assms])
  finally have step:
    "filter (\<lambda>r. d_id r = k) (compareCollectionData parseInt contractData collectionsData) =
     (if subgraphSide collectionsData k \<noteq> None \<or> contractSide parseInt contractData k \<noteq> None
      then compareOne ?sm ?cm [] k else [])" .
  have kinds: "\<And>s c. aggregatedDiffTypes s c = differingKinds s c"
    by (simp add: aggregatedDiffTypes_def differingKinds_def)
  have empty: "\<And>s c. (differingKinds s c = []) =
      (fc_name s = cc_name c \<and> fc_artistName s = cc_artistName c \<and> fc_editions s = cc_editions c)"
    by (simp add: differingKinds_def)
  show ?thesis
    unfolding step
    by (simp add: compareOne_def Map_get_def subgraphCollectionsMap_lookup
        contractCollectionsMap_lookup_safe [OF assms] kinds empty split: option.splits)
qed

lemmas keyed_eval = keyed_subgraph_def keyed_contract_def subgraphSide_def contractSide_def
  toContractCollection_def toString.simps digit_char_def parseDecimal_def differingKinds_def

lemma compareCollectionData_spec_example:
  "compareCollectionData parseDecimal
     [(''1'', \<lparr>m_name = ''A'', m_artistName = ''X'', m_editions = 6, m_identifier = 1\<rparr>)]
     [\<lparr>fc_id = ''1'', fc_name = ''A'', fc_artistName = ''X'', fc_editions = 5\<rparr>] =
   [\<lparr>d_id = ''1'', d_differences = [''editions''],
     d_subgraph = Some \<lparr>fc_id = ''1'', fc_name = ''A'', fc_artistName = ''X'', fc_editions = 5\<rparr>,
     d_other = Some \<lparr>cc_name = ''A'', cc_artistName = ''X'', cc_editions = 6, cc_id = ''1''\<rparr>\<rparr>]"
  by (simp add: compareCollectionData_def subgraphCollectionsMap_def contractCollectionsMap_def
      contractCollections_def Map_of_pairs_def Record_set_def Map_keys_def Set_of_list_def
      compareOne_def Map_get_def aggregatedDiffTypes_def toString.simps digit_char_def
      parseDecimal_def)

text \<open>
  Claim C4, amended, at the keys 1 (editions 5 and 6), 3 (subgraph only), 9 (contract only)
  and 2 (on neither side).
\<close>

theorem compareCollectionData_by_key_witness:
  "''__proto__'' \<notin> fst ` set keyed_contract \<and>
   filter (\<lambda>r. d_id r = ''1'') (compareCollectionData parseDecimal keyed_contract keyed_subgraph) =
     [\<lparr>d_id = ''1'', d_differences = [''editions''],
       d_subgraph = Some \<lparr>fc_id = ''1'', fc_name = ''A'', fc_artistName = ''X'', fc_editions = 5\<rparr>,
       d_other = Some \<lparr>cc_name = ''A'', cc_artistName = ''X'', cc_editions = 6, cc_id = ''1''\<rparr>\<rparr>] \<and>
   filter (\<lambda>r. d_id r = ''3'') (compareCollectionData parseDecimal keyed_contract keyed_subgraph) =
     [\<lparr>d_id = ''3'', d_differences = [''missing_in_contract''],
       d_subgraph = Some \<lparr>fc_id = ''3'', fc_name = ''B'', fc_artistName = ''Y'', fc_editions = 1\<rparr>,
       d_other = None\<rparr>] \<and>
   filter (\<lambda>r. d_id r = ''9'') (compareCollectionData parseDecimal keyed_contract keyed_subgraph) =
     [\<lparr>d_id = ''9'', d_differences = [''missing_in_subgraph''],
       d_subgraph = None,
       d_other = Some \<lparr>cc_name = ''C'', cc_artistName = ''Z'', cc_editions = 2, cc_id = ''9''\<rparr>\<rparr>] \<and>
   filter (\<lambda>r. d_id r = ''2'') (compareCollectionData parseDecimal keyed_contract keyed_subgraph) = []"
proof -
  have np: "''__proto__'' \<notin> fst ` set keyed_contract"
    by (simp add: keyed_contract_def)
  from compareCollectionData_by_key [OF np, of "''1''" parseDecimal keyed_subgraph]
    compareCollectionData_by_key [OF np, of "''3''" parseDecimal keyed_subgraph]
    compareCollectionData_by_key [OF np, of "''9''" parseDecimal keyed_subgraph]
    compareCollectionData_by_key [OF np, of "''2''" parseDecimal keyed_subgraph]
    np
  show ?thesis by (simp add: keyed_eval)
qed

text \<open>
  Claim C4 as stated: the contract data has the single key \<^verbatim>\<open>__proto__\<close>, the subgraph
  side has no collection, and the report has no record for that key.
\<close>

theorem compareCollectionData_proto_key_lost:
  "map fst proto_contract = [''__proto__''] \<and>
   compareCollectionData parseDecimal proto_contract [] = []"
  by (simp add: proto_contract_def compareCollectionData_def subgraphCollectionsMap_def
      contractCollectionsMap_def contractCollections_def Map_of_pairs_def Record_set_def
      Map_keys_def Set_of_list_def)


end
